theory Spec2Isabelle
  imports Complex_Main "HOL-Library.Product_Lexorder" "HOL-Library.Multiset"
begin

section \<open>Data model\<close>

text \<open>
  A Python \<^verbatim>\<open>str\<close> is a sequence of Unicode code points, and the regular expression of
  \<^verbatim>\<open>extract_sessions\<close> works on code points, so a string is a list of code points here.
  The seven day symbols of \<^verbatim>\<open>day_map\<close> are single code points outside ASCII
  (U+C6D4, U+D654, U+C218, U+BAA9, U+AE08, U+D1A0, U+C77C).
  \<open>py\<close> turns an ASCII literal into such a string.
\<close>

type_synonym pystr = "nat list"

definition py :: "string \<Rightarrow> pystr" where
  "py s = map of_char s"

text \<open>
  \<^verbatim>\<open>datetime.time\<close> values built by \<^verbatim>\<open>strptime(s, "%H:%M").time()\<close> carry an hour and
  a minute (seconds and microseconds are 0) and compare lexicographically, which is the
  order of pairs here. A session is the tuple \<^verbatim>\<open>(day index, start, end)\<close>.
\<close>

type_synonym time = "nat \<times> nat"

type_synonym session = "nat \<times> time \<times> time"

datatype error = ValueError | KeyError | TypeError

text \<open>
  One row of the catalog, with the columns the code reads. The text columns hold
  strings. A rating or a review count that is NaN in the data frame is \<open>None\<close>;
  a review count is a natural number. The column \<^verbatim>\<open>bayes\<close> that the code adds to
  its copies of the frame is a function of the row and of the global mean (\<open>bayes\<close>
  below), so a row of an output table is the offering itself.
\<close>

record offering =
  category :: pystr
  subject_name :: pystr
  subject_code :: pystr
  professor :: pystr
  time_field :: pystr
  credits :: nat
  rating :: "real option"
  review_count :: "nat option"

section \<open>Helper functions of the source\<close>

subsection \<open>\<^verbatim>\<open>day_map\<close>\<close>

definition day_map :: "nat \<rightharpoonup> nat" where
  "day_map = map_of [(0xC6D4, 0), (0xD654, 1), (0xC218, 2), (0xBAA9, 3),
                     (0xAE08, 4), (0xD1A0, 5), (0xC77C, 6)]"

subsection \<open>\<^verbatim>\<open>parse_time_str\<close>\<close>

text \<open>
  \<^verbatim>\<open>datetime.strptime(time_str, "%H:%M")\<close> matches the regular expression
  \<^verbatim>\<open>(?P<H>2[0-3]|[0-1]\d|\d):(?P<M>[0-5]\d|\d)\<close> at the start of the string and raises
  ValueError when it does not match or when input remains after the match. The first
  alternative that matches a directive is the one taken: a shorter alternative would
  have to be followed by a colon (or by the end) where the longer one read a digit.
  The classes \<^verbatim>\<open>[0-3]\<close>, \<^verbatim>\<open>[0-1]\<close> and \<^verbatim>\<open>[0-5]\<close> hold ASCII digits only, while
  \<^verbatim>\<open>\d\<close>, here and in the pattern of \<^verbatim>\<open>extract_sessions\<close>, matches every Unicode
  decimal digit (category Nd), and \<^verbatim>\<open>int\<close> reads each of them with its decimal value.

  The decimal digits of Unicode come in runs of ten consecutive code points with the
  values 0 to 9. \<open>nd_starts\<close> lists the first code point of each run, for Unicode
  14.0.0 (the table of \<^verbatim>\<open>unicodedata\<close> in CPython 3.11); \<open>decimal c\<close> is the value of
  the digit \<open>c\<close>. What is proved below uses three facts about this table only: the
  ASCII digits 48 to 57 have the values 0 to 9, a value is at most 9, and the colon is
  not a digit.
\<close>

definition nd_starts :: "nat list" where
  "nd_starts =
     [0x30, 0x660, 0x6F0, 0x7C0, 0x966, 0x9E6, 0xA66, 0xAE6, 0xB66, 0xBE6, 0xC66,
      0xCE6, 0xD66, 0xDE6, 0xE50, 0xED0, 0xF20, 0x1040, 0x1090, 0x17E0, 0x1810, 0x1946,
      0x19D0, 0x1A80, 0x1A90, 0x1B50, 0x1BB0, 0x1C40, 0x1C50, 0xA620, 0xA8D0, 0xA900,
      0xA9D0, 0xA9F0, 0xAA50, 0xABF0, 0xFF10, 0x104A0, 0x10D30, 0x11066, 0x110F0,
      0x11136, 0x111D0, 0x112F0, 0x11450, 0x114D0, 0x11650, 0x116C0, 0x11730, 0x118E0,
      0x11950, 0x11C50, 0x11D50, 0x11DA0, 0x16A60, 0x16AC0, 0x16B50, 0x1D7CE, 0x1D7D8,
      0x1D7E2, 0x1D7EC, 0x1D7F6, 0x1E140, 0x1E2F0, 0x1E950, 0x1FBF0]"

definition decimal :: "nat \<Rightarrow> nat option" where
  "decimal c = map_option (\<lambda>s. c - s) (find (\<lambda>s. s \<le> c \<and> c < s + 10) nd_starts)"

definition is_digit :: "nat \<Rightarrow> bool" where
  "is_digit c = (decimal c \<noteq> None)"

definition digit_value :: "nat \<Rightarrow> nat" where
  "digit_value c = (case decimal c of None \<Rightarrow> 0 | Some v \<Rightarrow> v)"

fun match_lit :: "pystr \<Rightarrow> pystr \<Rightarrow> pystr option" where
  "match_lit [] s = Some s"
| "match_lit (p # ps) [] = None"
| "match_lit (p # ps) (c # cs) = (if p = c then match_lit ps cs else None)"

fun match_hour :: "pystr \<Rightarrow> (nat \<times> pystr) option" where
  "match_hour [] = None"
| "match_hour [a] = (if is_digit a then Some (digit_value a, []) else None)"
| "match_hour (a # b # rest) =
     (if a = 50 \<and> 48 \<le> b \<and> b \<le> 51 then Some (20 + (b - 48), rest)
      else if (a = 48 \<or> a = 49) \<and> is_digit b then Some (10 * (a - 48) + digit_value b, rest)
      else if is_digit a then Some (digit_value a, b # rest)
      else None)"

fun match_minute :: "pystr \<Rightarrow> (nat \<times> pystr) option" where
  "match_minute [] = None"
| "match_minute [a] = (if is_digit a then Some (digit_value a, []) else None)"
| "match_minute (a # b # rest) =
     (if 48 \<le> a \<and> a \<le> 53 \<and> is_digit b then Some (10 * (a - 48) + digit_value b, rest)
      else if is_digit a then Some (digit_value a, b # rest)
      else None)"

definition parse_time_str :: "pystr \<Rightarrow> error + time" where
  "parse_time_str time_str =
     (case match_hour time_str of
        None \<Rightarrow> Inl ValueError
      | Some (h, s1) \<Rightarrow>
          (case match_lit [58] s1 of
             None \<Rightarrow> Inl ValueError
           | Some s2 \<Rightarrow>
               (case match_minute s2 of
                  None \<Rightarrow> Inl ValueError
                | Some (m, s3) \<Rightarrow> if s3 = [] then Inr (h, m) else Inl ValueError)))"

subsection \<open>\<^verbatim>\<open>extract_sessions\<close>\<close>

text \<open>
  The pattern is a day symbol, a space, \<^verbatim>\<open>[\<close>, one or more characters other than
  \<^verbatim>\<open>]\<close>, then \<^verbatim>\<open>]\<close>, a space, and \<^verbatim>\<open>\d{2}:\d{2}~\d{2}:\d{2}\<close>. The greedy class
  \<^verbatim>\<open>[^\]]+\<close> must be followed by \<^verbatim>\<open>]\<close>, so it can only stop at the first \<^verbatim>\<open>]\<close>: there is
  one way to match at a position. \<open>match_token\<close> matches at the head of the string and
  returns the three groups and the text after the match.
\<close>

definition is_day :: "nat \<Rightarrow> bool" where
  "is_day c = (c \<in> set [0xC6D4, 0xD654, 0xC218, 0xBAA9, 0xAE08, 0xD1A0, 0xC77C])"

fun match_hhmm :: "pystr \<Rightarrow> (pystr \<times> pystr) option" where
  "match_hhmm (a # b # c # d # e # rest) =
     (if is_digit a \<and> is_digit b \<and> c = 58 \<and> is_digit d \<and> is_digit e
      then Some ([a, b, c, d, e], rest) else None)"
| "match_hhmm _ = None"

definition match_token :: "pystr \<Rightarrow> ((nat \<times> pystr \<times> pystr) \<times> pystr) option" where
  "match_token s =
     (case s of
        [] \<Rightarrow> None
      | d # s1 \<Rightarrow>
          if \<not> is_day d then None
          else (case match_lit [32, 91] s1 of
                  None \<Rightarrow> None
                | Some s2 \<Rightarrow>
                    let x = takeWhile (\<lambda>c. c \<noteq> 93) s2;
                        s3 = dropWhile (\<lambda>c. c \<noteq> 93) s2
                    in if x = [] then None
                       else (case match_lit [93, 32] s3 of
                               None \<Rightarrow> None
                             | Some s4 \<Rightarrow>
                                 (case match_hhmm s4 of
                                    None \<Rightarrow> None
                                  | Some (start, s5) \<Rightarrow>
                                      (case match_lit [126] s5 of
                                         None \<Rightarrow> None
                                       | Some s6 \<Rightarrow>
                                           (case match_hhmm s6 of
                                              None \<Rightarrow> None
                                            | Some (end, s7) \<Rightarrow>
                                                Some ((d, start, end), s7)))))))"

text \<open>
  \<^verbatim>\<open>re.findall\<close> scans from the left: after a match the search goes on behind
  it, otherwise one character further.
\<close>

function findall :: "pystr \<Rightarrow> (nat \<times> pystr \<times> pystr) list" where
  "findall [] = []"
| "findall (c # cs) =
     (case match_token (c # cs) of
        Some (tok, rest) \<Rightarrow> tok # findall rest
      | None \<Rightarrow> findall cs)"
  by pat_completeness auto
termination
proof (relation "measure length")
  show "wf (measure length)" by simp
next
  fix c cs x2 tok rest
  assume m: "match_token (c # cs) = Some x2" and x2: "(tok, rest) = x2"
  have lit: "length s = length p + length r" if "match_lit p s = Some r" for p s r
    using that by (induction p s rule: match_lit.induct) (auto split: if_splits)
  have hm: "length s = 5 + length r" if "match_hhmm s = Some (t, r)" for s t r
    using that by (induction s rule: match_hhmm.induct) (auto split: if_splits)
  from m x2 have "match_token (c # cs) = Some (tok, rest)" by simp
  then have "length rest < length (c # cs)"
    unfolding match_token_def
    apply (auto split: if_splits option.splits simp: Let_def dest!: lit hm)
    subgoal for s2
      using length_dropWhile_le [of "\<lambda>c. c \<noteq> 93" s2] by simp
    done
  then show "(rest, c # cs) \<in> measure length" by simp
next
  fix c cs
  assume "match_token (c # cs) = None"
  show "(cs, c # cs) \<in> measure length" by simp
qed

fun build_sessions :: "(nat \<times> pystr \<times> pystr) list \<Rightarrow> error + session list" where
  "build_sessions [] = Inr []"
| "build_sessions ((day, start, end) # toks) =
     (case day_map day of
        None \<Rightarrow> Inl KeyError
      | Some d \<Rightarrow>
          (case parse_time_str start of
             Inl err \<Rightarrow> Inl err
           | Inr s \<Rightarrow>
               (case parse_time_str end of
                  Inl err \<Rightarrow> Inl err
                | Inr e \<Rightarrow>
                    (case build_sessions toks of
                       Inl err \<Rightarrow> Inl err
                     | Inr sessions \<Rightarrow> Inr ((d, s, e) # sessions)))))"

definition extract_sessions :: "pystr \<Rightarrow> error + session list" where
  "extract_sessions tf = build_sessions (findall tf)"

subsection \<open>\<^verbatim>\<open>is_conflict\<close>\<close>

fun conflict_with :: "session \<Rightarrow> session list \<Rightarrow> bool" where
  "conflict_with a [] = False"
| "conflict_with (d1, s1, e1) ((d2, s2, e2) # sessions_b) =
     (if d1 \<noteq> d2 then conflict_with (d1, s1, e1) sessions_b
      else if max s1 s2 < min e1 e2 then True
      else conflict_with (d1, s1, e1) sessions_b)"

fun is_conflict :: "session list \<Rightarrow> session list \<Rightarrow> bool" where
  "is_conflict [] sessions_b = False"
| "is_conflict (a # sessions_a) sessions_b =
     (if conflict_with a sessions_b then True else is_conflict sessions_a sessions_b)"

subsection \<open>\<^verbatim>\<open>bayesian_average\<close>\<close>

text \<open>
  Floating-point numbers are read as real numbers. With a review count \<open>n \<ge> 0\<close> and
  the default \<open>k = 10\<close> the divisor \<open>n + k\<close> is positive.
\<close>

definition bayesian_average :: "real option \<Rightarrow> nat option \<Rightarrow> real \<Rightarrow> nat \<Rightarrow> real" where
  "bayesian_average rating' n global_mean k =
     (case rating' of
        None \<Rightarrow> global_mean
      | Some r \<Rightarrow>
          if r = 0 then global_mean
          else (case n of
                  None \<Rightarrow> global_mean
                | Some n' \<Rightarrow>
                    (real n' / real (n' + k)) * r + (real k / real (n' + k)) * global_mean))"

section \<open>The offering selector\<close>

subsection \<open>Scores and the sorted frame\<close>

text \<open>
  \<^verbatim>\<open>df.sort_values("bayes", ascending=False)\<close> is a call into the pandas library with
  the default sorting kind. What the library promises for it is a rearrangement of the
  rows with the keys in descending order; the functions below take the sort as the
  parameter \<open>sort_values\<close>, working on rows paired with their score, and
  \<open>sorts_descending\<close> states that contract. \<open>stable_sort_desc\<close> is one
  function that meets it (it keeps rows of equal score in their given order) and is
  used where a concrete sort is needed.
\<close>

type_synonym sortfn = "(offering \<times> real) list \<Rightarrow> (offering \<times> real) list"

definition sorts_descending :: "sortfn \<Rightarrow> bool" where
  "sorts_descending sort_values \<longleftrightarrow>
     (\<forall>xs. mset (sort_values xs) = mset xs \<and> sorted_wrt (\<lambda>a b. snd b \<le> snd a) (sort_values xs))"

definition stable_sort_desc :: sortfn where
  "stable_sort_desc xs = rev (sort_key snd (rev xs))"

definition bayes :: "real \<Rightarrow> offering \<Rightarrow> real" where
  "bayes global_mean r = bayesian_average (rating r) (review_count r) global_mean 10"

text \<open>
  The global mean is NaN when the catalog has no rated row; it is \<open>None\<close> then.
  Every branch of \<^verbatim>\<open>bayesian_average\<close> returns the global mean or a sum with a multiple
  of it, so with a NaN global mean every score is NaN, and \<^verbatim>\<open>sort_values\<close> puts NaN
  rows last in the order they had: the frame stays as it was.
\<close>

definition bayes_sorted :: "sortfn \<Rightarrow> real option \<Rightarrow> offering list \<Rightarrow> offering list" where
  "bayes_sorted sort_values global_mean df =
     (case global_mean of
        None \<Rightarrow> df
      | Some m \<Rightarrow> map fst (sort_values (map (\<lambda>r. (r, bayes m r)) df)))"

subsection \<open>\<^verbatim>\<open>select_offering\<close>\<close>

text \<open>The first loop: the first row of the sorted frame whose sessions are free.\<close>

fun pick_primary :: "offering list \<Rightarrow> session list \<Rightarrow> error + (offering \<times> session list) option" where
  "pick_primary [] current_sessions = Inr None"
| "pick_primary (row # rows) current_sessions =
     (case extract_sessions (time_field row) of
        Inl err \<Rightarrow> Inl err
      | Inr sess \<Rightarrow>
          if \<not> is_conflict current_sessions sess then Inr (Some (row, sess))
          else pick_primary rows current_sessions)"

text \<open>The second loop: rows with the subject code of the primary are skipped.\<close>

fun pick_backup :: "offering option \<Rightarrow> offering list \<Rightarrow> session list \<Rightarrow> error + offering option" where
  "pick_backup primary [] current_sessions = Inr None"
| "pick_backup primary (row # rows) current_sessions =
     (if primary \<noteq> None \<and> subject_code row = subject_code (the primary)
      then pick_backup primary rows current_sessions
      else (case extract_sessions (time_field row) of
              Inl err \<Rightarrow> Inl err
            | Inr sess \<Rightarrow>
                if \<not> is_conflict current_sessions sess then Inr (Some row)
                else pick_backup primary rows current_sessions))"

text \<open>
  The last block, entered when the second loop found nothing. In its \<^verbatim>\<open>else\<close> branch
  the code compares the codes with \<^verbatim>\<open>None\<close> when there is no primary, which keeps
  every row.
\<close>

definition fallback_backup :: "offering option \<Rightarrow> offering list \<Rightarrow> offering option" where
  "fallback_backup primary df =
     (if primary = None \<and> df \<noteq> [] then Some (hd df)
      else let remain = filter (\<lambda>r. primary = None \<or> subject_code r \<noteq> subject_code (the primary)) df
           in if remain \<noteq> [] then Some (hd remain) else None)"

text \<open>
  The result carries, as its third component, the caller's list
  \<^verbatim>\<open>current_sessions\<close> as the call leaves it.
\<close>

definition select_offering ::
  "sortfn \<Rightarrow> offering list \<Rightarrow> session list \<Rightarrow> real option
     \<Rightarrow> error + (offering option \<times> offering option \<times> session list)" where
  "select_offering sort_values group_df current_sessions global_mean =
     (if group_df = [] then Inr (None, None, current_sessions)
      else
        let df = bayes_sorted sort_values global_mean group_df
        in case pick_primary df current_sessions of
             Inl err \<Rightarrow> Inl err
           | Inr found \<Rightarrow>
               let primary = map_option fst found;
                   current_sessions' =
                     (case found of
                        None \<Rightarrow> current_sessions
                      | Some (row, sess) \<Rightarrow> current_sessions @ sess)
               in (case pick_backup primary df current_sessions' of
                     Inl err \<Rightarrow> Inl err
                   | Inr found_backup \<Rightarrow>
                       let backup =
                             (if found_backup = None then fallback_backup primary df
                              else found_backup)
                       in Inr (primary, backup, current_sessions')))"

subsection \<open>Predicates for the statements about the selector\<close>

text \<open>
  \<open>parses r\<close>: the parser returns sessions for the time field of \<open>r\<close>.
  \<open>clashes cur r\<close>: it does, and they overlap the sessions \<open>cur\<close>.
\<close>

definition parses :: "offering \<Rightarrow> bool" where
  "parses r = (case extract_sessions (time_field r) of Inl err \<Rightarrow> False | Inr sess \<Rightarrow> True)"

definition clashes :: "session list \<Rightarrow> offering \<Rightarrow> bool" where
  "clashes cur r = (case extract_sessions (time_field r) of Inl err \<Rightarrow> False | Inr sess \<Rightarrow> is_conflict cur sess)"

section \<open>The schedule builder\<close>

definition cat_mandatory :: pystr where
  "cat_mandatory = [0xC804, 0xD544]"

definition cat_elective :: pystr where
  "cat_elective = [0xC804, 0xC120]"

definition cat_general :: pystr where
  "cat_general = [0xAD50, 0xC120]"

record rec_record =
  rec_category :: pystr
  rec_subject :: pystr
  primary_code :: pystr
  primary_time :: pystr
  primary_professor :: pystr
  primary_rating :: "real option"
  backup_code :: pystr
  backup_time :: pystr
  backup_professor :: pystr
  backup_rating :: "real option"

record build_state =
  current_sessions :: "session list"
  primaries :: "offering list"
  rec_records :: "rec_record list"

definition append_record ::
  "pystr \<Rightarrow> pystr \<Rightarrow> offering option \<Rightarrow> offering option \<Rightarrow> rec_record" where
  "append_record cat subj primary_row backup_row =
     \<lparr> rec_category = cat,
       rec_subject = subj,
       primary_code = (case primary_row of None \<Rightarrow> [] | Some p \<Rightarrow> subject_code p),
       primary_time = (case primary_row of None \<Rightarrow> [] | Some p \<Rightarrow> time_field p),
       primary_professor = (case primary_row of None \<Rightarrow> [] | Some p \<Rightarrow> professor p),
       primary_rating = (case primary_row of None \<Rightarrow> None | Some p \<Rightarrow> rating p),
       backup_code = (case backup_row of None \<Rightarrow> [] | Some b \<Rightarrow> subject_code b),
       backup_time = (case backup_row of None \<Rightarrow> [] | Some b \<Rightarrow> time_field b),
       backup_professor = (case backup_row of None \<Rightarrow> [] | Some b \<Rightarrow> professor b),
       backup_rating = (case backup_row of None \<Rightarrow> None | Some b \<Rightarrow> rating b) \<rparr>"

text \<open>
  \<^verbatim>\<open>df["..."].replace(0, pd.NA).dropna().mean()\<close>: the mean of the ratings that are
  present and not 0; NaN (here \<open>None\<close>) when there is none.
\<close>

definition global_mean_of :: "offering list \<Rightarrow> real option" where
  "global_mean_of df =
     (let rs = filter (\<lambda>x. x \<noteq> 0) (List.map_filter rating df)
      in if rs = [] then None else Some (sum_list rs / real (length rs)))"

text \<open>\<^verbatim>\<open>Series.unique()\<close> keeps the first occurrence of each value, in order.\<close>

definition unique :: "'a list \<Rightarrow> 'a list" where
  "unique xs = rev (remdups (rev xs))"

text \<open>
  The loops of the mandatory and of the elective phase have the same body; \<open>cat\<close>
  is the category written into the record and \<open>slice\<close> the rows of that category.
\<close>

fun subject_loop ::
  "sortfn \<Rightarrow> real option \<Rightarrow> pystr \<Rightarrow> offering list \<Rightarrow> pystr list \<Rightarrow> build_state
     \<Rightarrow> error + build_state" where
  "subject_loop sort_values gm cat slice [] st = Inr st"
| "subject_loop sort_values gm cat slice (subj # subjs) st =
     (let group = filter (\<lambda>r. subject_name r = subj) slice
      in case select_offering sort_values group (current_sessions st) gm of
           Inl err \<Rightarrow> Inl err
         | Inr (primary, backup, current_sessions') \<Rightarrow>
             subject_loop sort_values gm cat slice subjs
               \<lparr> current_sessions = current_sessions',
                 primaries = primaries st @ (case primary of None \<Rightarrow> [] | Some p \<Rightarrow> [p]),
                 rec_records = rec_records st @ [append_record cat subj primary backup] \<rparr>)"

text \<open>
  The loop of the general phase over the rows of the sorted \<open>general_df\<close>. The
  selector runs on a copy of the session list, so only its backup is used.
\<close>

fun general_loop ::
  "sortfn \<Rightarrow> real option \<Rightarrow> int \<Rightarrow> offering list \<Rightarrow> offering list \<Rightarrow> int \<Rightarrow> build_state
     \<Rightarrow> error + build_state" where
  "general_loop sort_values gm num_general general_df [] added st = Inr st"
| "general_loop sort_values gm num_general general_df (row # rows) added st =
     (if added \<ge> num_general then Inr st
      else (case extract_sessions (time_field row) of
              Inl err \<Rightarrow> Inl err
            | Inr sess \<Rightarrow>
                if is_conflict (current_sessions st) sess
                then general_loop sort_values gm num_general general_df rows added st
                else
                  let current_sessions' = current_sessions st @ sess;
                      grp = filter (\<lambda>r. subject_name r = subject_name row
                                          \<and> subject_code r \<noteq> subject_code row) general_df
                  in (case select_offering sort_values grp current_sessions' gm of
                        Inl err \<Rightarrow> Inl err
                      | Inr (unused, backup, copy') \<Rightarrow>
                          general_loop sort_values gm num_general general_df rows (added + 1)
                            \<lparr> current_sessions = current_sessions',
                              primaries = primaries st @ [row],
                              rec_records = rec_records st
                                @ [append_record cat_general (subject_name row) (Some row) backup] \<rparr>)))"

definition build_schedule ::
  "sortfn \<Rightarrow> offering list \<Rightarrow> pystr list \<Rightarrow> int \<Rightarrow> error + (offering list \<times> rec_record list)" where
  "build_schedule sort_values df selected_majors num_general =
     (let gm = global_mean_of df;
          st0 = \<lparr> current_sessions = [], primaries = [], rec_records = [] \<rparr>;
          mandatory = filter (\<lambda>r. category r = cat_mandatory) df
      in case subject_loop sort_values gm cat_mandatory mandatory
                (unique (map subject_name mandatory)) st0 of
           Inl err \<Rightarrow> Inl err
         | Inr st1 \<Rightarrow>
             let elective_df = filter (\<lambda>r. category r = cat_elective) df
             in (case subject_loop sort_values gm cat_elective elective_df selected_majors st1 of
                   Inl err \<Rightarrow> Inl err
                 | Inr st2 \<Rightarrow>
                     let general_df =
                           bayes_sorted sort_values gm (filter (\<lambda>r. category r = cat_general) df)
                     in (case general_loop sort_values gm num_general general_df general_df 0 st2 of
                           Inl err \<Rightarrow> Inl err
                         | Inr st3 \<Rightarrow> Inr (primaries st3, rec_records st3))))"

section \<open>The builder over a store of objects\<close>

text \<open>
  The functions above pass the session list along as a value. The program works on
  objects: \<^verbatim>\<open>select_offering\<close> extends the list it is given in place, the frames are
  objects to which a column can be assigned, and the caller's catalog and list of
  selected names live on after \<^verbatim>\<open>build_schedule\<close> returns. This section writes the
  same code with the objects in a store, a list of objects addressed by position, so
  that what a call leaves behind for the next call is part of the model. A frame is its
  rows and, when it has one, its column \<^verbatim>\<open>bayes\<close>, whose cells are \<open>None\<close> for NaN.
  Reading an address that holds no object of the expected kind is a TypeError. The
  only object of the module itself that the code touches is the dictionary
  \<^verbatim>\<open>day_map\<close>, which it reads and never writes; it stays the constant \<open>day_map\<close>.
\<close>

datatype obj =
    Frame "offering list" "real option list option"
  | Sessions "session list"
  | Names "pystr list"

type_synonym store = "obj list"

definition new_obj :: "store \<Rightarrow> obj \<Rightarrow> nat \<times> store" where
  "new_obj h ob = (length h, h @ [ob])"

definition frame_at :: "store \<Rightarrow> nat \<Rightarrow> error + (offering list \<times> real option list option)" where
  "frame_at h a =
     (if a < length h
      then (case h ! a of Frame rows col \<Rightarrow> Inr (rows, col) | _ \<Rightarrow> Inl TypeError)
      else Inl TypeError)"

definition sessions_at :: "store \<Rightarrow> nat \<Rightarrow> error + session list" where
  "sessions_at h a =
     (if a < length h
      then (case h ! a of Sessions ss \<Rightarrow> Inr ss | _ \<Rightarrow> Inl TypeError)
      else Inl TypeError)"

definition names_at :: "store \<Rightarrow> nat \<Rightarrow> error + pystr list" where
  "names_at h a =
     (if a < length h
      then (case h ! a of Names ns \<Rightarrow> Inr ns | _ \<Rightarrow> Inl TypeError)
      else Inl TypeError)"

text \<open>
  The cell of the column \<^verbatim>\<open>bayes\<close> for a row (NaN when the global mean is NaN); a
  column filtered along with its rows, as \<^verbatim>\<open>df[mask]\<close> does; and \<^verbatim>\<open>sort_values\<close> on a
  frame with that column: pandas sorts the rows whose key is present and puts those
  with a NaN key last, in the order they had.
\<close>

definition bayes_cell :: "real option \<Rightarrow> offering \<Rightarrow> real option" where
  "bayes_cell global_mean r = map_option (\<lambda>m. bayes m r) global_mean"

definition filter_col ::
  "(offering \<Rightarrow> bool) \<Rightarrow> offering list \<Rightarrow> real option list option \<Rightarrow> real option list option" where
  "filter_col P rows col =
     map_option (\<lambda>vals. map snd (filter (\<lambda>(r, v). P r) (zip rows vals))) col"

definition sort_frame ::
  "sortfn \<Rightarrow> offering list \<Rightarrow> real option list \<Rightarrow> offering list \<times> real option list" where
  "sort_frame sort_values rows vals =
     (let keyed = zip rows vals;
          present = sort_values
            (concat (map (\<lambda>(r, v). case v of None \<Rightarrow> [] | Some x \<Rightarrow> [(r, x)]) keyed));
          missing = filter (\<lambda>(r, v). v = None) keyed
      in (map fst present @ map fst missing,
          map (\<lambda>(r, x). Some x) present @ map snd missing))"

text \<open>
  \<^verbatim>\<open>select_offering\<close>: \<^verbatim>\<open>group_df.copy()\<close> makes a new frame, the assignment of the
  column writes to that new frame, \<^verbatim>\<open>sort_values\<close> returns another new frame, and
  \<^verbatim>\<open>current_sessions.extend(sess)\<close> writes to the list the caller passed. The two loops
  only read; the list does not change while the first one runs, so they are the loops
  \<open>pick_primary\<close> and \<open>pick_backup\<close> on what the list holds.
\<close>

definition select_offering_h ::
  "sortfn \<Rightarrow> store \<Rightarrow> nat \<Rightarrow> nat \<Rightarrow> real option
     \<Rightarrow> error + ((offering option \<times> offering option) \<times> store)" where
  "select_offering_h sort_values h group_df current_sessions_at global_mean =
     (case frame_at h group_df of
        Inl err \<Rightarrow> Inl err
      | Inr (rows, col) \<Rightarrow>
          if rows = [] then Inr ((None, None), h)
          else
            (case new_obj h (Frame rows col) of
               (df, h1) \<Rightarrow>
                 let vals = map (bayes_cell global_mean) rows;
                     h2 = h1[df := Frame rows (Some vals)]
                 in (case sort_frame sort_values rows vals of
                       (srows, svals) \<Rightarrow>
                         (case new_obj h2 (Frame srows (Some svals)) of
                            (df', h3) \<Rightarrow>
                              (case sessions_at h3 current_sessions_at of
                                 Inl err \<Rightarrow> Inl err
                               | Inr cur \<Rightarrow>
                                   (case pick_primary srows cur of
                                      Inl err \<Rightarrow> Inl err
                                    | Inr found \<Rightarrow>
                                        let primary = map_option fst found;
                                            h4 = (case found of
                                                    None \<Rightarrow> h3
                                                  | Some (row, sess) \<Rightarrow>
                                                      h3[current_sessions_at := Sessions (cur @ sess)])
                                        in (case sessions_at h4 current_sessions_at of
                                              Inl err \<Rightarrow> Inl err
                                            | Inr cur' \<Rightarrow>
                                                (case pick_backup primary srows cur' of
                                                   Inl err \<Rightarrow> Inl err
                                                 | Inr found_backup \<Rightarrow>
                                                     Inr ((primary,
                                                           if found_backup = None
                                                           then fallback_backup primary srows
                                                           else found_backup), h4)))))))))"

text \<open>
  The loops of \<^verbatim>\<open>build_schedule\<close>: \<^verbatim>\<open>df[...]\<close> makes a new frame for each group, the
  general phase extends the session list itself and hands \<^verbatim>\<open>select_offering\<close> a new
  list made by \<^verbatim>\<open>current_sessions.copy()\<close>. The lists \<^verbatim>\<open>primaries\<close> and
  \<^verbatim>\<open>rec_records\<close> are made by the call and handed to nobody before it returns; they
  are carried as values.
\<close>

fun subject_loop_h ::
  "sortfn \<Rightarrow> real option \<Rightarrow> pystr \<Rightarrow> offering list \<Rightarrow> real option list option \<Rightarrow> nat
     \<Rightarrow> pystr list \<Rightarrow> store \<times> offering list \<times> rec_record list
     \<Rightarrow> error + (store \<times> offering list \<times> rec_record list)" where
  "subject_loop_h sort_values gm cat slice col current_sessions_at [] st = Inr st"
| "subject_loop_h sort_values gm cat slice col current_sessions_at (subj # subjs) (h, prims, recs) =
     (case new_obj h (Frame (filter (\<lambda>r. subject_name r = subj) slice)
                            (filter_col (\<lambda>r. subject_name r = subj) slice col)) of
        (group_df, h1) \<Rightarrow>
          (case select_offering_h sort_values h1 group_df current_sessions_at gm of
             Inl err \<Rightarrow> Inl err
           | Inr ((primary, backup), h2) \<Rightarrow>
               subject_loop_h sort_values gm cat slice col current_sessions_at subjs
                 (h2, prims @ (case primary of None \<Rightarrow> [] | Some p \<Rightarrow> [p]),
                  recs @ [append_record cat subj primary backup])))"

fun general_loop_h ::
  "sortfn \<Rightarrow> real option \<Rightarrow> int \<Rightarrow> offering list \<Rightarrow> real option list \<Rightarrow> nat
     \<Rightarrow> offering list \<Rightarrow> int \<Rightarrow> store \<times> offering list \<times> rec_record list
     \<Rightarrow> error + (store \<times> offering list \<times> rec_record list)" where
  "general_loop_h sort_values gm num_general general_df gvals current_sessions_at [] added st = Inr st"
| "general_loop_h sort_values gm num_general general_df gvals current_sessions_at (row # rows) added
       (h, prims, recs) =
     (if added \<ge> num_general then Inr (h, prims, recs)
      else (case extract_sessions (time_field row) of
              Inl err \<Rightarrow> Inl err
            | Inr sess \<Rightarrow>
                (case sessions_at h current_sessions_at of
                   Inl err \<Rightarrow> Inl err
                 | Inr cur \<Rightarrow>
                     if is_conflict cur sess
                     then general_loop_h sort_values gm num_general general_df gvals
                            current_sessions_at rows added (h, prims, recs)
                     else
                       let h1 = h[current_sessions_at := Sessions (cur @ sess)];
                           sib = (\<lambda>r. subject_name r = subject_name row
                                      \<and> subject_code r \<noteq> subject_code row)
                       in (case new_obj h1 (Frame (filter sib general_df)
                                                  (filter_col sib general_df (Some gvals))) of
                             (grp, h2) \<Rightarrow>
                               (case new_obj h2 (Sessions (cur @ sess)) of
                                  (sessions_copy, h3) \<Rightarrow>
                                    (case select_offering_h sort_values h3 grp sessions_copy gm of
                                       Inl err \<Rightarrow> Inl err
                                     | Inr ((unused, backup), h4) \<Rightarrow>
                                         general_loop_h sort_values gm num_general general_df gvals
                                           current_sessions_at rows (added + 1)
                                           (h4, prims @ [row],
                                            recs @ [append_record cat_general (subject_name row)
                                                      (Some row) backup])))))))"

text \<open>
  \<^verbatim>\<open>build_schedule\<close> makes its session list, reads the catalog and the selected names
  (nothing writes to them in between, so they are read at the start), and makes the
  frames \<^verbatim>\<open>elective_df\<close> and \<^verbatim>\<open>general_df\<close>; the column is assigned to the copy
  \<^verbatim>\<open>general_df\<close>, and sorting gives one more frame. It returns the two tables and,
  here, the store it leaves.
\<close>

definition build_schedule_h ::
  "sortfn \<Rightarrow> store \<Rightarrow> nat \<Rightarrow> nat \<Rightarrow> int
     \<Rightarrow> error + ((offering list \<times> rec_record list) \<times> store)" where
  "build_schedule_h sort_values h df selected_majors num_general =
     (case frame_at h df of
        Inl err \<Rightarrow> Inl err
      | Inr (rows, col) \<Rightarrow>
          (case names_at h selected_majors of
             Inl err \<Rightarrow> Inl err
           | Inr names \<Rightarrow>
               (case new_obj h (Sessions []) of
                  (current_sessions_at, h0) \<Rightarrow>
                    let gm = global_mean_of rows;
                        is_m = (\<lambda>r. category r = cat_mandatory);
                        is_e = (\<lambda>r. category r = cat_elective);
                        is_g = (\<lambda>r. category r = cat_general)
                    in (case subject_loop_h sort_values gm cat_mandatory (filter is_m rows)
                               (filter_col is_m rows col) current_sessions_at
                               (unique (map subject_name (filter is_m rows))) (h0, [], []) of
                          Inl err \<Rightarrow> Inl err
                        | Inr (h1, prims1, recs1) \<Rightarrow>
                            (case new_obj h1 (Frame (filter is_e rows) (filter_col is_e rows col)) of
                               (elective_df, h2) \<Rightarrow>
                                 (case subject_loop_h sort_values gm cat_elective (filter is_e rows)
                                         (filter_col is_e rows col) current_sessions_at names
                                         (h2, prims1, recs1) of
                                    Inl err \<Rightarrow> Inl err
                                  | Inr (h3, prims2, recs2) \<Rightarrow>
                                      (case new_obj h3 (Frame (filter is_g rows)
                                                             (filter_col is_g rows col)) of
                                         (general_df, h4) \<Rightarrow>
                                           let gvals = map (bayes_cell gm) (filter is_g rows);
                                               h5 = h4[general_df := Frame (filter is_g rows) (Some gvals)]
                                           in (case sort_frame sort_values (filter is_g rows) gvals of
                                                 (srows, svals) \<Rightarrow>
                                                   (case new_obj h5 (Frame srows (Some svals)) of
                                                      (general_df', h6) \<Rightarrow>
                                                        (case general_loop_h sort_values gm num_general
                                                                srows svals current_sessions_at srows 0
                                                                (h6, prims2, recs2) of
                                                           Inl err \<Rightarrow> Inl err
                                                         | Inr (h7, prims3, recs3) \<Rightarrow>
                                                             Inr ((prims3, recs3), h7)))))))))))"

text \<open>
  \<open>only_writes c h h'\<close>: the store \<open>h'\<close> has every object of \<open>h\<close>, unchanged
  except at the address \<open>c\<close>.
\<close>

definition only_writes :: "nat \<Rightarrow> store \<Rightarrow> store \<Rightarrow> bool" where
  "only_writes c h h' = (length h \<le> length h' \<and> (\<forall>a<length h. a \<noteq> c \<longrightarrow> h' ! a = h ! a))"


section \<open>Notions for the statements about the parser\<close>

text \<open>
  What the pattern captures: a day symbol and two strings of the shape \<open>dd:dd\<close>,
  each \<open>d\<close> a decimal digit of any script. \<open>digits_time\<close> reads the two numbers
  of such a string and \<open>in_range\<close> says that they are an hour up to 23 and a minute
  up to 59. \<open>strptime_accepts\<close> is the condition under which \<^verbatim>\<open>%H:%M\<close> takes both
  digits of the hour and both digits of the minute: the hour starts with an ASCII 0 or
  1, or is an ASCII 2 followed by an ASCII 0 to 3, and the minute starts with an ASCII
  0 to 5. \<open>ascii t\<close> says that the string has ASCII characters only.
  \<open>token_session\<close> is the session of a captured token.
\<close>

fun digits_time :: "pystr \<Rightarrow> time" where
  "digits_time [a, b, c, d, e] =
     (10 * digit_value a + digit_value b, 10 * digit_value d + digit_value e)"
| "digits_time t = (0, 0)"

definition in_range :: "pystr \<Rightarrow> bool" where
  "in_range t = (fst (digits_time t) \<le> 23 \<and> snd (digits_time t) \<le> 59)"

definition strptime_accepts :: "pystr \<Rightarrow> bool" where
  "strptime_accepts t =
     (case t of
        [a, b, c, d, e] \<Rightarrow>
          ((a = 50 \<and> 48 \<le> b \<and> b \<le> 51) \<or> a = 48 \<or> a = 49) \<and> 48 \<le> d \<and> d \<le> 53
      | _ \<Rightarrow> False)"

definition ascii :: "pystr \<Rightarrow> bool" where
  "ascii t = list_all (\<lambda>c. c < 128) t"

definition day_index :: "nat \<Rightarrow> nat" where
  "day_index d = (case day_map d of None \<Rightarrow> 0 | Some i \<Rightarrow> i)"

definition token_session :: "nat \<times> pystr \<times> pystr \<Rightarrow> session" where
  "token_session tok = (case tok of (d, start, end) \<Rightarrow> (day_index d, digits_time start, digits_time end))"

definition hhmm_shape :: "pystr \<Rightarrow> bool" where
  "hhmm_shape t = (case t of [a, b, c, d, e] \<Rightarrow> is_digit a \<and> is_digit b \<and> c = 58 \<and> is_digit d \<and> is_digit e | _ \<Rightarrow> False)"

definition captured :: "nat \<times> pystr \<times> pystr \<Rightarrow> bool" where
  "captured tok = (case tok of (d, start, end) \<Rightarrow> is_day d \<and> hhmm_shape start \<and> hhmm_shape end)"

text \<open>
  The token \<open>D [X] HH:MM~HH:MM\<close> as text, for a day symbol \<open>d\<close>, a bracket
  content \<open>x\<close> and two times. It is well-formed when \<open>d\<close> is one of the seven day
  symbols, \<open>x\<close> is not empty and has no \<open>]\<close>, and both times lie between 00:00 and
  23:59. \<open>layout parts g\<close> is the input made of the tokens of \<open>parts\<close>, each after a
  stretch of other text, and of the last stretch \<open>g\<close>. \<open>silent g r\<close> says that
  no match of the pattern begins inside the stretch \<open>g\<close> when \<open>r\<close> follows it.
\<close>

definition two_digits :: "nat \<Rightarrow> pystr" where
  "two_digits n = [48 + n div 10, 48 + n mod 10]"

definition hhmm :: "time \<Rightarrow> pystr" where
  "hhmm t = two_digits (fst t) @ [58] @ two_digits (snd t)"

definition token_text :: "nat \<times> pystr \<times> time \<times> time \<Rightarrow> pystr" where
  "token_text tk = (case tk of (d, x, s, e) \<Rightarrow> [d, 32, 91] @ x @ [93, 32] @ hhmm s @ [126] @ hhmm e)"

definition well_formed :: "nat \<times> pystr \<times> time \<times> time \<Rightarrow> bool" where
  "well_formed tk = (case tk of (d, x, s, e) \<Rightarrow>
     is_day d \<and> x \<noteq> [] \<and> 93 \<notin> set x
     \<and> fst s \<le> 23 \<and> snd s \<le> 59 \<and> fst e \<le> 23 \<and> snd e \<le> 59)"

definition session_of :: "nat \<times> pystr \<times> time \<times> time \<Rightarrow> session" where
  "session_of tk = (case tk of (d, x, s, e) \<Rightarrow> (day_index d, s, e))"

fun silent :: "pystr \<Rightarrow> pystr \<Rightarrow> bool" where
  "silent [] r = True"
| "silent (c # g) r = (match_token (c # g @ r) = None \<and> silent g r)"

fun layout :: "(pystr \<times> nat \<times> pystr \<times> time \<times> time) list \<Rightarrow> pystr \<Rightarrow> pystr" where
  "layout [] g = g"
| "layout ((g0, tk) # parts) g = g0 @ token_text tk @ layout parts g"

fun gaps_silent :: "(pystr \<times> nat \<times> pystr \<times> time \<times> time) list \<Rightarrow> pystr \<Rightarrow> bool" where
  "gaps_silent [] g = silent g []"
| "gaps_silent ((g0, tk) # parts) g =
     (silent g0 (token_text tk @ layout parts g) \<and> gaps_silent parts g)"

definition fullwidth_hour_field :: pystr where
  "fullwidth_hour_field =
     [0xC6D4] @ py '' [R1] '' @ [0xFF10, 0xFF19, 58, 0xFF10, 0xFF10] @ py ''~10:00''"

definition mixed_digits_field :: pystr where
  "mixed_digits_field =
     [0xC6D4] @ py '' [R1] '' @ [49, 0xFF19, 58, 48, 0xFF10, 126, 49, 0xFF19, 58, 51, 0xFF10]"

definition example_field :: pystr where
  "example_field = py ''Lab: '' @ token_text (0xC6D4, py ''R1'', (9, 0), (10, 0))
     @ py ''; '' @ [0xD654] @ py '' 9:00~10:00 / ''
     @ token_text (0xD654, py ''B 2'', (13, 30), (15, 0))"

section \<open>An example catalog\<close>

text \<open>
  Sections of one mandatory subject: \<open>section_A1\<close> and \<open>section_A2\<close> both meet
  on the first day from 09:00 to 10:00, with rating 4.5 from 50 reviews and rating 3.0
  from 5 reviews; \<open>section_A3\<close> meets on the second day and is unrated.
\<close>

definition section_A1 :: offering where
  "section_A1 = \<lparr> category = cat_mandatory, subject_name = py ''A'', subject_code = py ''A1'',
      professor = py ''Kim'', time_field = [0xC6D4] @ py '' [R1] 09:00~10:00'', credits = 3,
      rating = Some (9 / 2), review_count = Some 50 \<rparr>"

definition section_A2 :: offering where
  "section_A2 = \<lparr> category = cat_mandatory, subject_name = py ''A'', subject_code = py ''A2'',
      professor = py ''Lee'', time_field = [0xC6D4] @ py '' [R2] 09:00~10:00'', credits = 3,
      rating = Some 3, review_count = Some 5 \<rparr>"

definition section_A3 :: offering where
  "section_A3 = \<lparr> category = cat_mandatory, subject_name = py ''A'', subject_code = py ''A3'',
      professor = py ''Park'', time_field = [0xD654] @ py '' [R3] 13:00~14:30'', credits = 3,
      rating = None, review_count = None \<rparr>"

text \<open>
  Two sections of one general subject, on different days: \<open>section_G1\<close> with rating
  4 from 20 reviews and \<open>section_G2\<close> with rating 3 from 10 reviews.
\<close>

definition section_G1 :: offering where
  "section_G1 = \<lparr> category = cat_general, subject_name = py ''G'', subject_code = py ''G1'',
      professor = py ''Choi'', time_field = [0xC6D4] @ py '' [R7] 09:00~10:00'', credits = 2,
      rating = Some 4, review_count = Some 20 \<rparr>"

definition section_G2 :: offering where
  "section_G2 = \<lparr> category = cat_general, subject_name = py ''G'', subject_code = py ''G2'',
      professor = py ''Jung'', time_field = [0xC218] @ py '' [R8] 11:00~12:00'', credits = 2,
      rating = Some 3, review_count = Some 10 \<rparr>"

text \<open>A store with that catalog and an empty list of selected names.\<close>

definition example_store :: store where
  "example_store = [Frame [section_G1, section_G2] None, Names []]"


section \<open>The digit table\<close>

lemma decimal_ascii: "48 \<le> c \<Longrightarrow> c \<le> 57 \<Longrightarrow> decimal c = Some (c - 48)"
  by (simp add: decimal_def nd_starts_def)

lemma decimal_le_9: "decimal c = Some v \<Longrightarrow> v \<le> 9"
  by (auto simp: decimal_def find_Some_iff)

lemma decimal_below_128: "c < 128 \<Longrightarrow> decimal c \<noteq> None \<Longrightarrow> 48 \<le> c \<and> c \<le> 57"
  by (simp add: decimal_def nd_starts_def split: if_splits)

lemma is_digit_ascii: "c < 128 \<Longrightarrow> is_digit c = (48 \<le> c \<and> c \<le> 57)"
  using decimal_ascii [of c] decimal_below_128 [of c] by (auto simp: is_digit_def)

lemma digit_value_ascii: "48 \<le> c \<Longrightarrow> c \<le> 57 \<Longrightarrow> digit_value c = c - 48"
  by (simp add: digit_value_def decimal_ascii)

lemma colon_no_digit: "\<not> is_digit 58"
  by (simp add: is_digit_ascii)

section \<open>The overlap detector\<close>

lemma conflict_with_iff:
  "conflict_with a bs \<longleftrightarrow>
     (\<exists>b\<in>set bs. fst a = fst b \<and> max (fst (snd a)) (fst (snd b)) < min (snd (snd a)) (snd (snd b)))"
  by (induction a bs rule: conflict_with.induct) auto

lemma is_conflict_iff:
  "is_conflict as bs \<longleftrightarrow> (\<exists>a\<in>set as. conflict_with a bs)"
  by (induction as) auto

text \<open>
  Claim C2. \<open>is_conflict A B\<close> is true exactly when some session of \<open>A\<close> and some
  session of \<open>B\<close> lie on the same day and the later start is strictly before the
  earlier end. Hence sessions on different days never overlap, and two sessions of
  which one ends when the other starts do not overlap.
\<close>

theorem is_conflict_exists_pair:
  "(is_conflict A B \<longleftrightarrow>
      (\<exists>(d1, s1, e1)\<in>set A. \<exists>(d2, s2, e2)\<in>set B. d1 = d2 \<and> max s1 s2 < min e1 e2))
   \<and> (d1 \<noteq> d2 \<longrightarrow> \<not> is_conflict [(d1, s1, e1)] [(d2, s2, e2)])
   \<and> \<not> is_conflict [(d, s, t)] [(d, t, e)]
   \<and> \<not> is_conflict [(d, t, e)] [(d, s, t)]"
proof -
  have "is_conflict A B \<longleftrightarrow>
      (\<exists>(d1, s1, e1)\<in>set A. \<exists>(d2, s2, e2)\<in>set B. d1 = d2 \<and> max s1 s2 < min e1 e2)"
    unfolding is_conflict_iff conflict_with_iff case_prod_unfold ..
  moreover have "d1 \<noteq> d2 \<longrightarrow> \<not> is_conflict [(d1, s1, e1)] [(d2, s2, e2)]"
    by simp
  moreover have "min t e \<le> max s t" and "min e t \<le> max t s"
    by (rule order_trans [OF min.cobounded1 max.cobounded2],
        rule order_trans [OF min.cobounded2 max.cobounded1])
  then have "\<not> is_conflict [(d, s, t)] [(d, t, e)]" "\<not> is_conflict [(d, t, e)] [(d, s, t)]"
    by (simp_all add: not_less)
  ultimately show ?thesis by blast
qed

theorem is_conflict_exists_pair_witness:
  "is_conflict [(0, (9, 0), (10, 30))] [(0, (10, 0), (11, 0))]
   \<and> \<not> is_conflict [(0, (9, 0), (10, 0))] [(1, (9, 0), (10, 0))]
   \<and> \<not> is_conflict [(0, (9, 0), (10, 0))] [(0, (10, 0), (11, 0))]"
proof -
  have "is_conflict [(0, (9, 0), (10, 30))] [(0, (10, 0), (11, 0))]"
    using is_conflict_exists_pair
      [of "[(0, (9, 0), (10, 30))]" "[(0, (10, 0), (11, 0))]" 0 1 "(9, 0)" "(10, 0)" "(9, 0)" "(10, 0)"
          0 "(9, 0)" "(10, 0)" "(11, 0)"]
    by simp
  moreover have "\<not> is_conflict [(0, (9, 0), (10, 0))] [(1, (9, 0), (10, 0))]"
    using is_conflict_exists_pair
      [of "[]" "[]" 0 1 "(9, 0)" "(10, 0)" "(9, 0)" "(10, 0)" 0 "(9, 0)" "(10, 0)" "(11, 0)"]
    by simp
  moreover have "\<not> is_conflict [(0, (9, 0), (10, 0))] [(0, (10, 0), (11, 0))]"
    using is_conflict_exists_pair
      [of "[]" "[]" 0 1 "(9, 0)" "(10, 0)" "(9, 0)" "(10, 0)" 0 "(9, 0)" "(10, 0)" "(11, 0)"]
    by simp
  ultimately show ?thesis by blast
qed

section \<open>The rating scorer\<close>

text \<open>
  Claim C3. With the shrinkage constant \<open>k = 10\<close>, \<open>bayesian_average\<close> returns the
  global mean \<open>m\<close> when the rating is absent, when the rating is 0, or when the review
  count is absent; otherwise it returns \<open>n/(n+k) * r + k/(n+k) * m\<close>.
\<close>

theorem bayesian_average_cases:
  "bayesian_average None n m 10 = m
   \<and> bayesian_average (Some 0) n m 10 = m
   \<and> bayesian_average r None m 10 = m
   \<and> (x \<noteq> 0 \<longrightarrow>
        bayesian_average (Some x) (Some c) m 10
          = (real c / (real c + 10)) * x + (10 / (real c + 10)) * m)"
  by (simp add: bayesian_average_def split: option.splits)

theorem bayesian_average_cases_witness:
  "bayesian_average (Some (9 / 2)) (Some 50) (7 / 2) 10 = 13 / 3
   \<and> bayesian_average (Some 0) (Some 50) (7 / 2) 10 = 7 / 2
   \<and> bayesian_average None (Some 50) (7 / 2) 10 = 7 / 2
   \<and> bayesian_average (Some (9 / 2)) None (7 / 2) 10 = 7 / 2"
  using bayesian_average_cases [of "Some 50" "7 / 2" "Some (9 / 2)" "9 / 2" 50]
  by simp

section \<open>Properties of the offering selector\<close>

subsection \<open>The sorted frame\<close>

lemma stable_sort_desc_ok: "sorts_descending stable_sort_desc"
proof -
  have "sorted_wrt (\<lambda>a b. snd b \<le> snd a) (rev (sort_key snd ys))" for ys :: "(offering \<times> real) list"
  proof -
    have "sorted (map snd (sort_key snd ys))" by (rule sorted_sort_key)
    then have "sorted_wrt (\<lambda>a b. snd a \<le> snd b) (sort_key snd ys)"
      by (simp add: sorted_map)
    then show ?thesis by (simp add: sorted_wrt_rev)
  qed
  then show ?thesis
    by (simp add: sorts_descending_def stable_sort_desc_def)
qed

lemma stable_sort_desc_stable:
  "filter (\<lambda>p. snd p = k) (stable_sort_desc xs) = filter (\<lambda>p. snd p = k) xs"
proof -
  have "filter (\<lambda>p. snd p = k) (sort_key snd (rev xs)) = filter (\<lambda>p. snd p = k) (rev xs)"
    by (rule sort_key_stable)
  then show ?thesis
    by (simp add: stable_sort_desc_def rev_filter [symmetric])
qed

lemma bayes_sorted_mset:
  assumes "sorts_descending sort_values"
  shows "mset (bayes_sorted sort_values gm df) = mset df"
proof (cases gm)
  case None
  then show ?thesis by (simp add: bayes_sorted_def)
next
  case (Some m)
  have "mset (map fst (sort_values (map (\<lambda>r. (r, bayes m r)) df)))
          = image_mset fst (mset (sort_values (map (\<lambda>r. (r, bayes m r)) df)))"
    by simp
  also have "\<dots> = image_mset fst (mset (map (\<lambda>r. (r, bayes m r)) df))"
    using assms by (simp add: sorts_descending_def)
  also have "\<dots> = mset df"
    by (simp add: image_mset.compositionality comp_def)
  finally show ?thesis using Some by (simp add: bayes_sorted_def)
qed

lemma bayes_sorted_set:
  "sorts_descending sort_values \<Longrightarrow> set (bayes_sorted sort_values gm df) = set df"
  by (metis bayes_sorted_mset set_mset_mset)

lemma bayes_sorted_desc:
  assumes "sorts_descending sort_values"
  shows "sorted_wrt (\<lambda>a b. bayes m b \<le> bayes m a) (bayes_sorted sort_values (Some m) df)"
proof -
  let ?xs = "map (\<lambda>r. (r, bayes m r)) df"
  have perm: "mset (sort_values ?xs) = mset ?xs" and
       srt: "sorted_wrt (\<lambda>a b. snd b \<le> snd a) (sort_values ?xs)"
    using assms by (simp_all add: sorts_descending_def)
  have "set (sort_values ?xs) = set ?xs" using perm by (metis set_mset_mset)
  then have key: "\<forall>p\<in>set (sort_values ?xs). snd p = bayes m (fst p)" by auto
  have "sorted_wrt (\<lambda>a b. bayes m (fst b) \<le> bayes m (fst a)) (sort_values ?xs)"
  proof (rule sorted_wrt_mono_rel [OF _ srt])
    fix x y
    assume "x \<in> set (sort_values ?xs)" "y \<in> set (sort_values ?xs)" "snd y \<le> snd x"
    with key show "bayes m (fst y) \<le> bayes m (fst x)" by simp
  qed
  then show ?thesis by (simp add: bayes_sorted_def sorted_wrt_map)
qed

subsection \<open>The two loops of the selector\<close>

lemma pick_primary_Some:
  "pick_primary df cur = Inr (Some (p, sess)) \<Longrightarrow>
     \<exists>pre post. df = pre @ p # post \<and> (\<forall>r\<in>set pre. clashes cur r)
        \<and> extract_sessions (time_field p) = Inr sess \<and> \<not> is_conflict cur sess"
proof (induction df)
  case Nil
  then show ?case by simp
next
  case (Cons row rows)
  show ?case
  proof (cases "extract_sessions (time_field row)")
    case (Inl err)
    with Cons.prems show ?thesis by simp
  next
    case (Inr s)
    show ?thesis
    proof (cases "is_conflict cur s")
      case False
      with Inr Cons.prems have "p = row" "sess = s" by simp_all
      with Inr False have "row # rows = [] @ p # rows \<and> (\<forall>r\<in>set []. clashes cur r)
        \<and> extract_sessions (time_field p) = Inr sess \<and> \<not> is_conflict cur sess" by simp
      then show ?thesis by blast
    next
      case True
      with Inr Cons.prems have "pick_primary rows cur = Inr (Some (p, sess))" by simp
      from Cons.IH [OF this] obtain pre post where
        "rows = pre @ p # post" "\<forall>r\<in>set pre. clashes cur r"
        "extract_sessions (time_field p) = Inr sess" "\<not> is_conflict cur sess" by blast
      with Inr True have "row # rows = (row # pre) @ p # post \<and> (\<forall>r\<in>set (row # pre). clashes cur r)
        \<and> extract_sessions (time_field p) = Inr sess \<and> \<not> is_conflict cur sess"
        by (simp add: clashes_def)
      then show ?thesis by blast
    qed
  qed
qed

lemma pick_primary_None:
  "pick_primary df cur = Inr None \<Longrightarrow> \<forall>r\<in>set df. clashes cur r"
  by (induction df) (auto simp: clashes_def split: sum.splits if_splits)

lemma pick_primary_total:
  "\<forall>r\<in>set df. parses r \<Longrightarrow> \<exists>res. pick_primary df cur = Inr res"
  by (induction df) (auto simp: parses_def split: sum.splits)

lemma pick_backup_Some:
  "pick_backup primary df cur = Inr (Some b) \<Longrightarrow>
     b \<in> set df \<and> (primary = None \<or> subject_code b \<noteq> subject_code (the primary))
       \<and> parses b \<and> \<not> clashes cur b"
  by (induction df) (auto simp: clashes_def parses_def split: sum.splits if_splits)

lemma pick_backup_None:
  "pick_backup primary df cur = Inr None \<Longrightarrow>
     \<forall>r\<in>set df. (primary = None \<or> subject_code r \<noteq> subject_code (the primary)) \<longrightarrow> clashes cur r"
  by (induction df) (auto simp: clashes_def split: sum.splits if_splits)

lemma pick_backup_total:
  "\<forall>r\<in>set df. parses r \<Longrightarrow> \<exists>res. pick_backup primary df cur = Inr res"
  by (induction df) (auto simp: parses_def split: sum.splits)

lemma select_offering_total:
  assumes "sorts_descending sort_values" and "\<forall>r\<in>set group_df. parses r"
  shows "\<exists>res. select_offering sort_values group_df cur gm = Inr res"
proof (cases "group_df = []")
  case True
  then show ?thesis by (simp add: select_offering_def)
next
  case False
  let ?df = "bayes_sorted sort_values gm group_df"
  have all: "\<forall>r\<in>set ?df. parses r"
    using assms by (simp add: bayes_sorted_set)
  from pick_primary_total [OF all] obtain found where
    f: "pick_primary ?df cur = Inr found" by blast
  from pick_backup_total [OF all] obtain fb where
    "pick_backup (map_option fst found) ?df
       (case found of None \<Rightarrow> cur | Some (row, sess) \<Rightarrow> cur @ sess) = Inr fb" by blast
  with f False show ?thesis
    by (simp add: select_offering_def Let_def)
qed

subsection \<open>The example catalog, evaluated\<close>

lemma extract_A1: "extract_sessions (time_field section_A1) = Inr [(0, (9, 0), (10, 0))]"
  by (simp add: section_A1_def py_def extract_sessions_def match_token_def is_day_def
      is_digit_ascii digit_value_ascii parse_time_str_def day_map_def)

lemma extract_A2: "extract_sessions (time_field section_A2) = Inr [(0, (9, 0), (10, 0))]"
  by (simp add: section_A2_def py_def extract_sessions_def match_token_def is_day_def
      is_digit_ascii digit_value_ascii parse_time_str_def day_map_def)

lemma extract_A3: "extract_sessions (time_field section_A3) = Inr [(1, (13, 0), (14, 30))]"
  by (simp add: section_A3_def py_def extract_sessions_def match_token_def is_day_def
      is_digit_ascii digit_value_ascii parse_time_str_def day_map_def)

lemma codes_A: "subject_code section_A1 \<noteq> subject_code section_A2"
  "subject_code section_A1 \<noteq> subject_code section_A3"
  "subject_code section_A2 \<noteq> subject_code section_A3"
  by (simp_all add: section_A1_def section_A2_def section_A3_def py_def)

lemma bayes_A: "bayes (7 / 2) section_A1 = 13 / 3" "bayes (7 / 2) section_A2 = 10 / 3"
  "bayes (7 / 2) section_A3 = 7 / 2"
  by (simp_all add: bayes_def bayesian_average_def section_A1_def section_A2_def section_A3_def)

lemma sorted_A12: "bayes_sorted stable_sort_desc (Some (7 / 2)) [section_A2, section_A1]
   = [section_A1, section_A2]"
  by (simp add: bayes_sorted_def stable_sort_desc_def bayes_A)

lemma sorted_A123: "bayes_sorted stable_sort_desc (Some (7 / 2)) [section_A2, section_A3, section_A1]
   = [section_A1, section_A3, section_A2]"
  by (simp add: bayes_sorted_def stable_sort_desc_def bayes_A)

lemma select_A12:
  "select_offering stable_sort_desc [section_A2, section_A1] [] (Some (7 / 2))
     = Inr (Some section_A1, Some section_A2, [(0, (9, 0), (10, 0))])"
  by (simp add: select_offering_def Let_def sorted_A12 extract_A1 extract_A2 codes_A codes_A [symmetric] fallback_backup_def)

lemma select_A123:
  "select_offering stable_sort_desc [section_A2, section_A3, section_A1] [(0, (9, 30), (11, 0))] (Some (7 / 2))
     = Inr (Some section_A3, Some section_A1, [(0, (9, 30), (11, 0)), (1, (13, 0), (14, 30))])"
  by (simp add: select_offering_def Let_def sorted_A123 extract_A1 extract_A2 extract_A3 codes_A codes_A [symmetric] fallback_backup_def)

subsection \<open>The primary\<close>

lemma select_offering_InrE:
  assumes "select_offering sort_values group_df cur gm = Inr (primary, backup, cur')"
    and "group_df \<noteq> []"
  obtains found fb where
    "pick_primary (bayes_sorted sort_values gm group_df) cur = Inr found"
    "primary = map_option fst found"
    "cur' = (case found of None \<Rightarrow> cur | Some (row, sess) \<Rightarrow> cur @ sess)"
    "pick_backup primary (bayes_sorted sort_values gm group_df) cur' = Inr fb"
    "backup = (if fb = None then fallback_backup primary (bayes_sorted sort_values gm group_df) else fb)"
proof -
  let ?df = "bayes_sorted sort_values gm group_df"
  obtain found where f: "pick_primary ?df cur = Inr found"
    using assms by (cases "pick_primary ?df cur") (auto simp: select_offering_def Let_def)
  let ?p = "map_option fst found"
  let ?c = "case found of None \<Rightarrow> cur | Some (row, sess) \<Rightarrow> cur @ sess"
  obtain fb where k: "pick_backup ?p ?df ?c = Inr fb"
    using assms f by (cases "pick_backup ?p ?df ?c") (auto simp: select_offering_def Let_def)
  from assms f k have "primary = ?p" "cur' = ?c"
    "backup = (if fb = None then fallback_backup ?p ?df else fb)"
    by (simp_all add: select_offering_def Let_def)
  with f k that show thesis by blast
qed

text \<open>
  Claim C1. Let the sort meet its contract. The sorted frame is a rearrangement of the
  candidates with scores in descending order. When the selector returns a primary, the
  sorted frame splits into rows that all overlap the incoming sessions, the primary,
  and the rest; the sessions of the primary do not overlap the incoming sessions, and
  the session list after the call is the incoming list followed by the sessions of the
  primary. When it returns no primary, every candidate overlaps the incoming sessions
  and the session list is unchanged. The selector returns whenever the time field of
  every candidate parses.
\<close>

theorem select_offering_primary_first_free:
  assumes "sorts_descending sort_values"
  shows "mset (bayes_sorted sort_values gm group_df) = mset group_df
     \<and> (\<forall>m. gm = Some m \<longrightarrow>
           sorted_wrt (\<lambda>a b. bayes m b \<le> bayes m a) (bayes_sorted sort_values gm group_df))
     \<and> ((\<forall>r\<in>set group_df. parses r) \<longrightarrow>
           (\<exists>res. select_offering sort_values group_df cur gm = Inr res))
     \<and> (select_offering sort_values group_df cur gm = Inr (primary, backup, cur') \<longrightarrow>
           (case primary of
              Some p \<Rightarrow>
                (\<exists>pre post sess.
                    bayes_sorted sort_values gm group_df = pre @ p # post
                  \<and> (\<forall>r\<in>set pre. clashes cur r)
                  \<and> extract_sessions (time_field p) = Inr sess
                  \<and> \<not> is_conflict cur sess
                  \<and> cur' = cur @ sess)
            | None \<Rightarrow> (\<forall>r\<in>set group_df. clashes cur r) \<and> cur' = cur))"
proof -
  let ?df = "bayes_sorted sort_values gm group_df"
  have perm: "mset ?df = mset group_df"
    using assms by (rule bayes_sorted_mset)
  have desc: "\<forall>m. gm = Some m \<longrightarrow> sorted_wrt (\<lambda>a b. bayes m b \<le> bayes m a) ?df"
    using assms by (simp add: bayes_sorted_desc)
  have total: "(\<forall>r\<in>set group_df. parses r) \<longrightarrow>
      (\<exists>res. select_offering sort_values group_df cur gm = Inr res)"
    using select_offering_total [OF assms] by blast
  have result: "case primary of
              Some p \<Rightarrow>
                (\<exists>pre post sess. ?df = pre @ p # post
                  \<and> (\<forall>r\<in>set pre. clashes cur r)
                  \<and> extract_sessions (time_field p) = Inr sess
                  \<and> \<not> is_conflict cur sess
                  \<and> cur' = cur @ sess)
            | None \<Rightarrow> (\<forall>r\<in>set group_df. clashes cur r) \<and> cur' = cur"
    if sel: "select_offering sort_values group_df cur gm = Inr (primary, backup, cur')"
  proof (cases "group_df = []")
    case True
    with sel show ?thesis by (simp add: select_offering_def)
  next
    case False
    from sel False obtain found where
      f: "pick_primary ?df cur = Inr found" and
      p: "primary = map_option fst found" and
      c: "cur' = (case found of None \<Rightarrow> cur | Some (row, sess) \<Rightarrow> cur @ sess)"
      by (rule select_offering_InrE)
    show ?thesis
    proof (cases found)
      case None
      with f have "\<forall>r\<in>set ?df. clashes cur r" by (simp add: pick_primary_None)
      then have "\<forall>r\<in>set group_df. clashes cur r"
        using assms by (simp add: bayes_sorted_set)
      with None p c show ?thesis by simp
    next
      case (Some a)
      obtain row sess where a: "a = (row, sess)" by (cases a)
      from pick_primary_Some [of ?df cur row sess] f Some a obtain pre post where
        "?df = pre @ row # post" "\<forall>r\<in>set pre. clashes cur r"
        "extract_sessions (time_field row) = Inr sess" "\<not> is_conflict cur sess"
        by auto
      with Some a p c show ?thesis by auto
    qed
  qed
  from perm desc total result show ?thesis by blast
qed

theorem select_offering_primary_first_free_witness:
  "sorts_descending stable_sort_desc
   \<and> select_offering stable_sort_desc [section_A2, section_A3, section_A1]
        [(0, (9, 30), (11, 0))] (Some (7 / 2))
       = Inr (Some section_A3, Some section_A1, [(0, (9, 30), (11, 0)), (1, (13, 0), (14, 30))])
   \<and> (\<exists>pre post sess.
          bayes_sorted stable_sort_desc (Some (7 / 2)) [section_A2, section_A3, section_A1]
            = pre @ section_A3 # post
        \<and> (\<forall>r\<in>set pre. clashes [(0, (9, 30), (11, 0))] r)
        \<and> extract_sessions (time_field section_A3) = Inr sess
        \<and> \<not> is_conflict [(0, (9, 30), (11, 0))] sess
        \<and> [(0, (9, 30), (11, 0)), (1, (13, 0), (14, 30))] = [(0, (9, 30), (11, 0))] @ sess)"
  using select_offering_primary_first_free [OF stable_sort_desc_ok,
      of "Some (7 / 2)" "[section_A2, section_A3, section_A1]" "[(0, (9, 30), (11, 0))]"
         "Some section_A3" "Some section_A1" "[(0, (9, 30), (11, 0)), (1, (13, 0), (14, 30))]"]
    select_A123 stable_sort_desc_ok
  by simp

subsection \<open>Primary and backup are different sections\<close>

text \<open>
  Claim C5. Whenever the selector returns both a primary and a backup, their subject
  codes differ.
\<close>

theorem select_offering_codes_differ:
  "select_offering sort_values group_df cur gm = Inr (Some p, Some b, cur')
     \<Longrightarrow> subject_code p \<noteq> subject_code b"
proof -
  assume sel: "select_offering sort_values group_df cur gm = Inr (Some p, Some b, cur')"
  let ?df = "bayes_sorted sort_values gm group_df"
  from sel have ne: "group_df \<noteq> []"
    by (auto simp: select_offering_def)
  from sel ne obtain fb where
    k: "pick_backup (Some p) ?df cur' = Inr fb" and
    b: "Some b = (if fb = None then fallback_backup (Some p) ?df else fb)"
    by (rule select_offering_InrE)
  show ?thesis
  proof (cases fb)
    case None
    with b have "fallback_backup (Some p) ?df = Some b" by simp
    then have "b = hd (filter (\<lambda>r. subject_code r \<noteq> subject_code p) ?df)"
      and "filter (\<lambda>r. subject_code r \<noteq> subject_code p) ?df \<noteq> []"
      by (auto simp: fallback_backup_def Let_def split: if_splits)
    then have "b \<in> set (filter (\<lambda>r. subject_code r \<noteq> subject_code p) ?df)"
      by (metis hd_in_set)
    then show ?thesis by auto
  next
    case (Some x)
    with b k have "pick_backup (Some p) ?df cur' = Inr (Some b)" by simp
    from pick_backup_Some [OF this] show ?thesis by auto
  qed
qed

theorem select_offering_codes_differ_witness:
  "select_offering stable_sort_desc [section_A2, section_A1] [] (Some (7 / 2))
       = Inr (Some section_A1, Some section_A2, [(0, (9, 0), (10, 0))])
   \<and> subject_code section_A1 \<noteq> subject_code section_A2"
  using select_offering_codes_differ [OF select_A12] select_A12 by simp

subsection \<open>The backup\<close>




section \<open>Properties of the TimeField parser\<close>

subsection \<open>What the pattern captures\<close>

lemma match_hhmm_shape: "match_hhmm s = Some (t, r) \<Longrightarrow> hhmm_shape t"
  by (induction s rule: match_hhmm.induct) (auto simp: hhmm_shape_def split: if_splits)

lemma match_token_captured: "match_token s = Some (tok, r) \<Longrightarrow> captured tok"
  unfolding match_token_def captured_def
  by (auto simp: Let_def split: list.splits if_splits option.splits dest: match_hhmm_shape)

lemma findall_captured: "tok \<in> set (findall s) \<Longrightarrow> captured tok"
proof (induction s rule: findall.induct)
  case 1
  then show ?case by simp
next
  case (2 c cs)
  show ?case
  proof (cases "match_token (c # cs)")
    case None
    with 2 show ?thesis by simp
  next
    case (Some a)
    obtain t r where a: "a = (t, r)" by (cases a)
    with Some 2 have "tok = t \<or> tok \<in> set (findall r)" by simp
    then show ?thesis
    proof
      assume "tok = t"
      with Some a show ?thesis by (simp add: match_token_captured)
    next
      assume "tok \<in> set (findall r)"
      with 2 Some a show ?thesis by simp
    qed
  qed
qed

lemma is_day_day_map: "is_day d \<Longrightarrow> day_map d = Some (day_index d)"
  by (auto simp: is_day_def day_map_def day_index_def)

lemma match_hour_two:
  assumes "is_digit a" "is_digit b"
  shows "match_hour (a # b # r) =
     (if (a = 50 \<and> 48 \<le> b \<and> b \<le> 51) \<or> a = 48 \<or> a = 49
      then Some (10 * digit_value a + digit_value b, r)
      else Some (digit_value a, b # r))"
  using assms by (auto simp: digit_value_ascii)

lemma match_minute_two:
  assumes "is_digit d" "is_digit e"
  shows "match_minute [d, e] =
     (if 48 \<le> d \<and> d \<le> 53 then Some (10 * digit_value d + digit_value e, [])
      else Some (digit_value d, [e]))"
  using assms by (auto simp: digit_value_ascii)

lemma parse_time_str_shape:
  assumes "hhmm_shape t"
  shows "parse_time_str t = (if strptime_accepts t then Inr (digits_time t) else Inl ValueError)"
proof -
  from assms obtain a b d e where t: "t = [a, b, 58, d, e]"
    and dg: "is_digit a" "is_digit b" "is_digit d" "is_digit e"
    by (auto simp: hhmm_shape_def split: list.splits)
  from dg(2) colon_no_digit have b: "b \<noteq> 58" by auto
  show ?thesis
    unfolding t parse_time_str_def strptime_accepts_def
    by (simp add: match_hour_two [OF dg(1,2)] match_minute_two [OF dg(3,4)] b
        del: match_hour.simps match_minute.simps)
qed

lemma parse_time_str_fullwidth_single: "parse_time_str ([0xFF17] @ py '':00'') = Inr (7, 0)"
  by (simp add: parse_time_str_def py_def is_digit_def digit_value_def decimal_def nd_starts_def)

lemma strptime_accepts_ascii:
  assumes "hhmm_shape t" and "ascii t"
  shows "strptime_accepts t = in_range t"
proof -
  from assms(1) obtain a b d e where t: "t = [a, b, 58, d, e]"
    and dg: "is_digit a" "is_digit b" "is_digit d" "is_digit e"
    by (auto simp: hhmm_shape_def split: list.splits)
  from assms(2) t have lt: "a < 128" "b < 128" "d < 128" "e < 128"
    by (simp_all add: ascii_def)
  from dg lt have r: "48 \<le> a" "a \<le> 57" "48 \<le> b" "b \<le> 57" "48 \<le> d" "d \<le> 57" "48 \<le> e" "e \<le> 57"
    by (simp_all add: is_digit_ascii)
  then have v: "digit_value a = a - 48" "digit_value b = b - 48"
    "digit_value d = d - 48" "digit_value e = e - 48"
    by (simp_all add: digit_value_ascii)
  show ?thesis
    unfolding t strptime_accepts_def in_range_def
    using r by (simp add: v) arith
qed

lemma build_sessions_captured:
  "\<forall>tok\<in>set toks. captured tok \<Longrightarrow>
   build_sessions toks =
     (if \<forall>tok\<in>set toks. strptime_accepts (fst (snd tok)) \<and> strptime_accepts (snd (snd tok))
      then Inr (map token_session toks) else Inl ValueError)"
proof (induction toks)
  case Nil
  then show ?case by simp
next
  case (Cons tok toks)
  obtain d st en where tok: "tok = (d, st, en)" by (cases tok)
  from Cons.prems tok have c: "is_day d" "hhmm_shape st" "hhmm_shape en"
    by (simp_all add: captured_def)
  from Cons have IH: "build_sessions toks =
     (if \<forall>tok\<in>set toks. strptime_accepts (fst (snd tok)) \<and> strptime_accepts (snd (snd tok))
      then Inr (map token_session toks) else Inl ValueError)" by simp
  show ?case
    unfolding tok
    by (simp add: is_day_day_map [OF c(1)] parse_time_str_shape [OF c(2)]
        parse_time_str_shape [OF c(3)] IH token_session_def)
qed

subsection \<open>When the parser fails\<close>

text \<open>
  The claim C6 as the specification states it, that the parser never fails and drops
  tokens whose times lie outside 00:00 to 23:59, does not hold: the pattern accepts any
  two digits for hours and minutes, and \<^verbatim>\<open>parse_time_str\<close> then raises ValueError.
\<close>

theorem extract_sessions_raises:
  "extract_sessions ([0xC6D4] @ py '' [R1] 25:00~26:00'') = Inl ValueError"
  by (simp add: extract_sessions_def py_def match_token_def is_day_def is_digit_ascii
      digit_value_ascii day_map_def parse_time_str_def)

text \<open>
  Claim C6, amended. The parser scans the time field for the matches of the pattern and
  ignores everything else. It returns the sessions of all matches when \<^verbatim>\<open>strptime\<close>
  accepts both times of every matched token, and it fails with ValueError otherwise: a
  matched token with a time that is not accepted is not dropped. For a time written in
  ASCII digits, being accepted is lying between 00:00 and 23:59.
\<close>

theorem extract_sessions_value_error:
  "extract_sessions tf =
     (if \<forall>tok\<in>set (findall tf).
           strptime_accepts (fst (snd tok)) \<and> strptime_accepts (snd (snd tok))
      then Inr (map token_session (findall tf)) else Inl ValueError)
   \<and> (\<forall>tok\<in>set (findall tf).
         (ascii (fst (snd tok)) \<longrightarrow> strptime_accepts (fst (snd tok)) = in_range (fst (snd tok)))
       \<and> (ascii (snd (snd tok)) \<longrightarrow> strptime_accepts (snd (snd tok)) = in_range (snd (snd tok))))"
proof -
  have cap: "\<forall>tok\<in>set (findall tf). captured tok"
    by (simp add: findall_captured)
  have "extract_sessions tf =
     (if \<forall>tok\<in>set (findall tf).
           strptime_accepts (fst (snd tok)) \<and> strptime_accepts (snd (snd tok))
      then Inr (map token_session (findall tf)) else Inl ValueError)"
    unfolding extract_sessions_def using cap by (rule build_sessions_captured)
  moreover have "\<forall>tok\<in>set (findall tf).
         (ascii (fst (snd tok)) \<longrightarrow> strptime_accepts (fst (snd tok)) = in_range (fst (snd tok)))
       \<and> (ascii (snd (snd tok)) \<longrightarrow> strptime_accepts (snd (snd tok)) = in_range (snd (snd tok)))"
    using cap by (auto simp: captured_def strptime_accepts_ascii)
  ultimately show ?thesis by blast
qed

lemma findall_example_field:
  "findall example_field
      = [(0xC6D4, py ''09:00'', py ''10:00''), (0xD654, py ''13:30'', py ''15:00'')]"
  by (simp add: example_field_def token_text_def hhmm_def two_digits_def py_def
      match_token_def is_day_def is_digit_ascii)

lemma findall_out_of_range:
  "findall ([0xC6D4] @ py '' [R1] 25:00~26:00'') = [(0xC6D4, py ''25:00'', py ''26:00'')]"
  by (simp add: py_def match_token_def is_day_def is_digit_ascii)

lemma findall_fullwidth_hour:
  "findall fullwidth_hour_field
      = [(0xC6D4, [0xFF10, 0xFF19, 58, 0xFF10, 0xFF10], py ''10:00'')]"
  by (simp add: fullwidth_hour_field_def py_def match_token_def is_day_def is_digit_def
      decimal_def nd_starts_def)

lemma findall_mixed_digits:
  "findall mixed_digits_field
      = [(0xC6D4, [49, 0xFF19, 58, 48, 0xFF10], [49, 0xFF19, 58, 51, 0xFF10])]"
  by (simp add: mixed_digits_field_def py_def match_token_def is_day_def is_digit_def
      decimal_def nd_starts_def)

theorem extract_sessions_value_error_witness:
  "extract_sessions example_field = Inr [(0, (9, 0), (10, 0)), (1, (13, 30), (15, 0))]
   \<and> in_range (py ''09:00'') \<and> in_range (py ''10:00'')
   \<and> in_range (py ''13:30'') \<and> in_range (py ''15:00'')
   \<and> extract_sessions ([0xC6D4] @ py '' [R1] 25:00~26:00'') = Inl ValueError
   \<and> \<not> in_range (py ''25:00'')
   \<and> extract_sessions fullwidth_hour_field = Inl ValueError
   \<and> extract_sessions mixed_digits_field = Inr [(0, (19, 0), (19, 30))]"
proof -
  have e1: "extract_sessions example_field = Inr [(0, (9, 0), (10, 0)), (1, (13, 30), (15, 0))]"
    using extract_sessions_value_error [of example_field]
    unfolding findall_example_field
    by (simp add: py_def strptime_accepts_def token_session_def day_index_def day_map_def
        digit_value_ascii)
  have e2: "extract_sessions ([0xC6D4] @ py '' [R1] 25:00~26:00'') = Inl ValueError"
    using extract_sessions_value_error [of "[0xC6D4] @ py '' [R1] 25:00~26:00''"]
    unfolding findall_out_of_range
    by (simp add: py_def strptime_accepts_def)
  have e3: "extract_sessions fullwidth_hour_field = Inl ValueError"
    using extract_sessions_value_error [of fullwidth_hour_field]
    unfolding findall_fullwidth_hour
    by (simp add: py_def strptime_accepts_def)
  have e4: "extract_sessions mixed_digits_field = Inr [(0, (19, 0), (19, 30))]"
    using extract_sessions_value_error [of mixed_digits_field]
    unfolding findall_mixed_digits
    by (simp add: strptime_accepts_def token_session_def day_index_def day_map_def
        digit_value_def decimal_def nd_starts_def)
  have r: "in_range (py ''09:00'')" "in_range (py ''10:00'')" "in_range (py ''13:30'')"
    "in_range (py ''15:00'')" "\<not> in_range (py ''25:00'')"
    by (simp_all add: py_def in_range_def digit_value_ascii)
  from e1 e2 e3 e4 r show ?thesis by blast
qed

subsection \<open>Well-formed tokens\<close>

lemma silent_findall: "silent g r \<Longrightarrow> findall (g @ r) = findall r"
  by (induction g) simp_all

lemma no_day_silent: "\<forall>c\<in>set g. \<not> is_day c \<Longrightarrow> silent g r"
  by (induction g) (simp_all add: match_token_def)

lemma is_digit_two: "n \<le> 59 \<Longrightarrow> is_digit (48 + n div 10) \<and> is_digit (48 + n mod 10)"
proof -
  assume "n \<le> 59"
  then have "48 + n div 10 < 128" "48 + n div 10 \<le> 57" "48 + n mod 10 < 128" "48 + n mod 10 \<le> 57"
    by arith+
  then show ?thesis by (simp add: is_digit_ascii)
qed

lemma digit_value_two:
  "n \<le> 59 \<Longrightarrow> digit_value (48 + n div 10) = n div 10 \<and> digit_value (48 + n mod 10) = n mod 10"
proof -
  assume "n \<le> 59"
  then have "48 + n div 10 \<le> 57" "48 + n mod 10 \<le> 57"
    by arith+
  then show ?thesis by (simp add: digit_value_ascii)
qed

lemma match_hhmm_text:
  assumes "fst t \<le> 59" "snd t \<le> 59"
  shows "match_hhmm (hhmm t @ r) = Some (hhmm t, r)"
  using is_digit_two [OF assms(1)] is_digit_two [OF assms(2)]
  by (simp add: hhmm_def two_digits_def)

lemma match_token_text:
  assumes "well_formed tk"
  shows "match_token (token_text tk @ r) = Some ((fst tk, hhmm (fst (snd (snd tk))), hhmm (snd (snd (snd tk)))), r)"
proof -
  obtain d x s e where tk: "tk = (d, x, s, e)" by (cases tk)
  from assms tk have wf: "is_day d" "x \<noteq> []" "93 \<notin> set x"
    "fst s \<le> 59" "snd s \<le> 59" "fst e \<le> 59" "snd e \<le> 59"
    by (simp_all add: well_formed_def)
  have tw: "takeWhile (\<lambda>c. c \<noteq> 93) (x @ 93 # ys) = x"
    and dw: "dropWhile (\<lambda>c. c \<noteq> 93) (x @ 93 # ys) = 93 # ys" for ys
    using wf(3) by (induction x) auto
  have s: "match_hhmm (hhmm s @ 126 # hhmm e @ r) = Some (hhmm s, 126 # hhmm e @ r)"
    using wf(4,5) by (rule match_hhmm_text)
  have e: "match_hhmm (hhmm e @ r) = Some (hhmm e, r)"
    using wf(6,7) by (rule match_hhmm_text)
  show ?thesis
    unfolding tk token_text_def match_token_def
    by (simp add: wf(1,2) tw dw s e)
qed

lemma findall_token_text:
  assumes "well_formed tk"
  shows "findall (token_text tk @ r)
     = (fst tk, hhmm (fst (snd (snd tk))), hhmm (snd (snd (snd tk)))) # findall r"
proof -
  obtain c cs where c: "token_text tk @ r = c # cs"
    by (cases tk) (simp add: token_text_def)
  from match_token_text [OF assms, of r] show ?thesis
    unfolding c by simp
qed

lemma findall_layout:
  "\<forall>p\<in>set parts. well_formed (snd p) \<Longrightarrow> gaps_silent parts g \<Longrightarrow>
   findall (layout parts g)
     = map (\<lambda>p. (fst (snd p), hhmm (fst (snd (snd (snd p)))), hhmm (snd (snd (snd (snd p)))))) parts"
proof (induction parts)
  case Nil
  then show ?case using silent_findall [of g "[]"] by simp
next
  case (Cons p parts)
  obtain g0 tk where p: "p = (g0, tk)" by (cases p)
  from Cons.prems p have wf: "well_formed tk" and
    sil: "silent g0 (token_text tk @ layout parts g)" and
    rest: "\<forall>p\<in>set parts. well_formed (snd p)" "gaps_silent parts g" by simp_all
  from Cons.IH [OF rest] have IH: "findall (layout parts g)
     = map (\<lambda>p. (fst (snd p), hhmm (fst (snd (snd (snd p)))), hhmm (snd (snd (snd (snd p)))))) parts"
    by simp
  show ?case
    unfolding p
    by (simp add: silent_findall [OF sil] findall_token_text [OF wf] IH)
qed

lemma digits_time_hhmm:
  assumes "fst t \<le> 23" "snd t \<le> 59"
  shows "digits_time (hhmm t) = t" and "strptime_accepts (hhmm t)"
proof -
  obtain h m where t: "t = (h, m)" by (cases t)
  with assms have hm: "h \<le> 23" "m \<le> 59" by simp_all
  then have h59: "h \<le> 59" by simp
  show "digits_time (hhmm t) = t"
    using digit_value_two [OF h59] digit_value_two [OF hm(2)]
    by (simp add: t hhmm_def two_digits_def)
  have "h div 10 = 0 \<or> h div 10 = 1 \<or> (h div 10 = 2 \<and> h mod 10 \<le> 3)"
    using hm(1) by arith
  moreover have "m div 10 \<le> 5" using hm(2) by arith
  ultimately show "strptime_accepts (hhmm t)"
    by (auto simp: t hhmm_def two_digits_def strptime_accepts_def)
qed

text \<open>
  The claim C8 as the specification states it does not hold either: an input with one
  well-formed token and a second substring of the token shape whose times are out of
  range does not yield one session (nor two), the parser fails.
\<close>

theorem extract_sessions_out_of_range_token:
  "extract_sessions (token_text (0xC6D4, py ''R1'', (9, 0), (10, 0)) @ py '', ''
      @ [0xD654] @ py '' [R2] 25:00~26:00'') = Inl ValueError"
  by (simp add: extract_sessions_def token_text_def hhmm_def two_digits_def py_def
      match_token_def is_day_def is_digit_ascii digit_value_ascii day_map_def parse_time_str_def)

text \<open>
  Claim C8, amended. Let the input consist of \<open>N\<close> well-formed tokens (day symbol,
  non-empty bracket content without \<open>]\<close>, both times between 00:00 and 23:59 and
  written with two ASCII digits each for hour and minute) and of stretches of text
  before, between and after them inside which no match of the pattern begins. Then the
  parser returns exactly \<open>N\<close> sessions, in the order of the tokens, each with the
  day index and the two times of its token. A stretch that holds a token written with
  digits of another script is not free of matches: \<open>silent\<close> uses the same digits
  as the pattern.
\<close>

theorem extract_sessions_tokens:
  assumes "\<forall>p\<in>set parts. well_formed (snd p)" and "gaps_silent parts g"
  shows "extract_sessions (layout parts g) = Inr (map (\<lambda>p. session_of (snd p)) parts)"
proof -
  let ?cap = "\<lambda>p. (fst (snd p), hhmm (fst (snd (snd (snd p)))), hhmm (snd (snd (snd (snd p)))))"
  have f: "findall (layout parts g) = map ?cap parts"
    using assms by (rule findall_layout)
  have cap: "\<forall>tok\<in>set (findall (layout parts g)). captured tok"
    by (simp add: findall_captured)
  have rng: "\<forall>tok\<in>set (map ?cap parts).
      strptime_accepts (fst (snd tok)) \<and> strptime_accepts (snd (snd tok))"
    using assms(1) by (auto simp: well_formed_def digits_time_hhmm split: prod.splits)
  have ses: "map token_session (map ?cap parts) = map (\<lambda>p. session_of (snd p)) parts"
    using assms(1)
    by (auto simp: well_formed_def token_session_def session_of_def digits_time_hhmm split: prod.splits)
  from build_sessions_captured [OF cap] f rng ses show ?thesis
    by (simp add: extract_sessions_def)
qed

lemma mixed_digits_not_silent: "\<not> silent (mixed_digits_field @ py '' / '') r"
  by (simp add: mixed_digits_field_def py_def match_token_def is_day_def is_digit_def
      decimal_def nd_starts_def)

lemma example_field_layout:
  "example_field = layout [(py ''Lab: '', (0xC6D4, py ''R1'', (9, 0), (10, 0))),
       (py ''; '' @ [0xD654] @ py '' 9:00~10:00 / '', (0xD654, py ''B 2'', (13, 30), (15, 0)))] []"
  by (simp add: example_field_def)

theorem extract_sessions_tokens_witness:
  "well_formed (0xC6D4, py ''R1'', (9, 0), (10, 0))
   \<and> well_formed (0xD654, py ''B 2'', (13, 30), (15, 0))
   \<and> gaps_silent [(py ''Lab: '', (0xC6D4, py ''R1'', (9, 0), (10, 0))),
       (py ''; '' @ [0xD654] @ py '' 9:00~10:00 / '', (0xD654, py ''B 2'', (13, 30), (15, 0)))] []
   \<and> extract_sessions example_field = Inr [(0, (9, 0), (10, 0)), (1, (13, 30), (15, 0))]"
proof -
  let ?parts = "[(py ''Lab: '', (0xC6D4, py ''R1'', (9, 0), (10, 0))),
       (py ''; '' @ [0xD654] @ py '' 9:00~10:00 / '', (0xD654, py ''B 2'', (13, 30), (15, 0)))]"
  have wf: "\<forall>p\<in>set ?parts. well_formed (snd p)"
    by (simp add: well_formed_def is_day_def py_def)
  have sil: "gaps_silent ?parts []"
    by (simp add: py_def token_text_def hhmm_def two_digits_def match_token_def is_day_def
        is_digit_ascii)
  from extract_sessions_tokens [OF wf sil] wf sil show ?thesis
    by (simp add: example_field_layout session_of_def day_index_def day_map_def)
qed

section \<open>Properties of the schedule builder\<close>

subsection \<open>The builder returns\<close>

lemma subject_loop_total:
  assumes "sorts_descending sort_values" and "\<forall>r\<in>set slice. parses r"
  shows "\<exists>st'. subject_loop sort_values gm cat slice subjs st = Inr st'"
proof (induction subjs arbitrary: st)
  case Nil
  then show ?case by simp
next
  case (Cons subj subjs)
  let ?group = "filter (\<lambda>r. subject_name r = subj) slice"
  have "\<forall>r\<in>set ?group. parses r" using assms(2) by simp
  with assms(1) obtain res where
    "select_offering sort_values ?group (current_sessions st) gm = Inr res"
    using select_offering_total by blast
  moreover obtain p b c where "res = (p, b, c)" by (cases res)
  ultimately have sel: "select_offering sort_values ?group (current_sessions st) gm = Inr (p, b, c)"
    by simp
  show ?case using Cons.IH by (simp add: Let_def sel)
qed

lemma general_loop_total:
  assumes "sorts_descending sort_values" and "\<forall>r\<in>set general_df. parses r"
  shows "\<forall>r\<in>set rows. parses r \<Longrightarrow>
         \<exists>st'. general_loop sort_values gm num_general general_df rows added st = Inr st'"
proof (induction rows arbitrary: added st)
  case Nil
  then show ?case by simp
next
  case (Cons row rows)
  from Cons.prems obtain sess where sess: "extract_sessions (time_field row) = Inr sess"
    by (auto simp: parses_def split: sum.splits)
  from Cons.prems have rest: "\<forall>r\<in>set rows. parses r" by simp
  let ?grp = "filter (\<lambda>r. subject_name r = subject_name row
                           \<and> subject_code r \<noteq> subject_code row) general_df"
  have "\<forall>r\<in>set ?grp. parses r" using assms(2) by simp
  with assms(1) obtain res where
    "select_offering sort_values ?grp (current_sessions st @ sess) gm = Inr res"
    using select_offering_total by blast
  moreover obtain p b c where "res = (p, b, c)" by (cases res)
  ultimately have sel:
    "select_offering sort_values ?grp (current_sessions st @ sess) gm = Inr (p, b, c)" by simp
  show ?case using Cons.IH [OF rest] by (simp add: Let_def sess sel)
qed

lemma build_schedule_total:
  assumes "sorts_descending sort_values" and "\<forall>r\<in>set df. parses r"
  shows "\<exists>tables. build_schedule sort_values df selected_majors num_general = Inr tables"
proof -
  let ?gm = "global_mean_of df"
  let ?st0 = "\<lparr> current_sessions = [], primaries = [], rec_records = [] \<rparr>"
  let ?mand = "filter (\<lambda>r. category r = cat_mandatory) df"
  let ?elec = "filter (\<lambda>r. category r = cat_elective) df"
  let ?gen = "bayes_sorted sort_values ?gm (filter (\<lambda>r. category r = cat_general) df)"
  have "\<forall>r\<in>set ?mand. parses r" using assms(2) by simp
  with assms(1) obtain st1 where
    s1: "subject_loop sort_values ?gm cat_mandatory ?mand (unique (map subject_name ?mand)) ?st0 = Inr st1"
    using subject_loop_total by blast
  have "\<forall>r\<in>set ?elec. parses r" using assms(2) by simp
  with assms(1) obtain st2 where
    s2: "subject_loop sort_values ?gm cat_elective ?elec selected_majors st1 = Inr st2"
    using subject_loop_total by blast
  have g: "\<forall>r\<in>set ?gen. parses r"
    using assms by (simp add: bayes_sorted_set)
  from general_loop_total [OF assms(1) g g] obtain st3 where
    s3: "general_loop sort_values ?gm num_general ?gen ?gen 0 st2 = Inr st3" by blast
  show ?thesis
    by (simp add: build_schedule_def Let_def s1 s2 s3)
qed

subsection \<open>A group of one section\<close>

lemma bayes_sorted_single:
  assumes "sorts_descending sort_values"
  shows "bayes_sorted sort_values gm [s] = [s]"
proof -
  have "mset (bayes_sorted sort_values gm [s]) = mset [s]"
    using assms by (rule bayes_sorted_mset)
  then show ?thesis by simp
qed

lemma select_offering_single_free:
  assumes "sorts_descending sort_values"
    and "extract_sessions (time_field s) = Inr ss" and "\<not> is_conflict cur ss"
  shows "select_offering sort_values [s] cur gm = Inr (Some s, None, cur @ ss)"
  using assms(2,3)
  by (simp add: select_offering_def Let_def bayes_sorted_single [OF assms(1)] fallback_backup_def)

subsection \<open>The general example, evaluated\<close>

lemma extract_G1: "extract_sessions (time_field section_G1) = Inr [(0, (9, 0), (10, 0))]"
  by (simp add: section_G1_def py_def extract_sessions_def match_token_def is_day_def
      is_digit_ascii digit_value_ascii parse_time_str_def day_map_def)

lemma extract_G2: "extract_sessions (time_field section_G2) = Inr [(2, (11, 0), (12, 0))]"
  by (simp add: section_G2_def py_def extract_sessions_def match_token_def is_day_def
      is_digit_ascii digit_value_ascii parse_time_str_def day_map_def)

lemma siblings_G1:
  "filter (\<lambda>r. subject_name r = subject_name section_G1 \<and> subject_code r \<noteq> subject_code section_G1)
     [section_G1, section_G2] = [section_G2]"
  by (simp add: section_G1_def section_G2_def py_def)

lemma build_G12:
  "build_schedule stable_sort_desc [section_G1, section_G2] [] 1
     = Inr ([section_G1],
            [append_record cat_general (subject_name section_G1) (Some section_G1) None])"
proof -
  have gm: "global_mean_of [section_G1, section_G2] = Some (7 / 2)"
    by (simp add: global_mean_of_def List.map_filter_def section_G1_def section_G2_def)
  have cats: "category section_G1 = cat_general" "category section_G2 = cat_general"
    "cat_general \<noteq> cat_mandatory" "cat_general \<noteq> cat_elective"
    by (simp_all add: section_G1_def section_G2_def cat_general_def cat_mandatory_def cat_elective_def)
  have b: "bayes (7 / 2) section_G1 = 23 / 6" "bayes (7 / 2) section_G2 = 13 / 4"
    by (simp_all add: bayes_def bayesian_average_def section_G1_def section_G2_def)
  have srt: "bayes_sorted stable_sort_desc (Some (7 / 2)) [section_G1, section_G2]
      = [section_G1, section_G2]"
    by (simp add: bayes_sorted_def stable_sort_desc_def b)
  have sel: "select_offering stable_sort_desc [section_G2] [(0, (9, 0), (10, 0))] (Some (7 / 2))
      = Inr (Some section_G2, None, [(0, (9, 0), (10, 0))] @ [(2, (11, 0), (12, 0))])"
    by (rule select_offering_single_free [OF stable_sort_desc_ok extract_G2]) simp
  have names: "subject_name section_G2 = subject_name section_G1"
    "subject_code section_G2 \<noteq> subject_code section_G1"
    by (simp_all add: section_G1_def section_G2_def py_def)
  show ?thesis
    by (simp add: build_schedule_def Let_def gm cats unique_def srt extract_G1 names sel)
qed

subsection \<open>The backup of a general subject with one sibling\<close>

text \<open>
  Claim C10. In the loop of the general phase, let the row be taken as a primary (the
  counter is below the target and the row's sessions are free), let exactly one row of
  the general frame have the same subject name and another subject code, and let that
  sibling be free of conflicts with the sessions after the primary was added. Then the
  call of the selector on the sibling group returns the sibling as its primary and no
  backup, and the loop goes on with a record for the subject whose backup is none.
\<close>

theorem general_loop_single_sibling_no_backup:
  assumes "sorts_descending sort_values"
    and "added < num_general"
    and "extract_sessions (time_field row) = Inr sess"
    and "\<not> is_conflict (current_sessions st) sess"
    and "filter (\<lambda>r. subject_name r = subject_name row \<and> subject_code r \<noteq> subject_code row)
           general_df = [sibling]"
    and "parses sibling"
    and "\<not> clashes (current_sessions st @ sess) sibling"
  shows "(\<exists>copy'. select_offering sort_values [sibling] (current_sessions st @ sess) gm
                    = Inr (Some sibling, None, copy'))
     \<and> general_loop sort_values gm num_general general_df (row # rows) added st
         = general_loop sort_values gm num_general general_df rows (added + 1)
             \<lparr> current_sessions = current_sessions st @ sess,
               primaries = primaries st @ [row],
               rec_records = rec_records st
                 @ [append_record cat_general (subject_name row) (Some row) None] \<rparr>
     \<and> backup_code (append_record cat_general (subject_name row) (Some row) None) = []"
proof -
  from assms(6) obtain ss where ss: "extract_sessions (time_field sibling) = Inr ss"
    by (auto simp: parses_def split: sum.splits)
  with assms(7) have free: "\<not> is_conflict (current_sessions st @ sess) ss"
    by (simp add: clashes_def)
  have sel: "select_offering sort_values [sibling] (current_sessions st @ sess) gm
      = Inr (Some sibling, None, (current_sessions st @ sess) @ ss)"
    using assms(1) ss free by (rule select_offering_single_free)
  have step: "general_loop sort_values gm num_general general_df (row # rows) added st
         = general_loop sort_values gm num_general general_df rows (added + 1)
             \<lparr> current_sessions = current_sessions st @ sess,
               primaries = primaries st @ [row],
               rec_records = rec_records st
                 @ [append_record cat_general (subject_name row) (Some row) None] \<rparr>"
    using assms(2,3,4) by (simp add: Let_def assms(5) sel)
  have "backup_code (append_record cat_general (subject_name row) (Some row) None) = []"
    by (simp add: append_record_def)
  with sel step show ?thesis by blast
qed

theorem general_loop_single_sibling_no_backup_witness:
  "sorts_descending stable_sort_desc
   \<and> parses section_G2
   \<and> \<not> clashes [(0, (9, 0), (10, 0))] section_G2
   \<and> general_loop stable_sort_desc (Some (7 / 2)) 1 [section_G1, section_G2]
        [section_G1, section_G2] 0 \<lparr> current_sessions = [], primaries = [], rec_records = [] \<rparr>
      = Inr \<lparr> current_sessions = [(0, (9, 0), (10, 0))],
              primaries = [section_G1],
              rec_records = [append_record cat_general (subject_name section_G1) (Some section_G1) None] \<rparr>
   \<and> build_schedule stable_sort_desc [section_G1, section_G2] [] 1
      = Inr ([section_G1],
             [append_record cat_general (subject_name section_G1) (Some section_G1) None])"
proof -
  let ?st = "\<lparr> current_sessions = [], primaries = [], rec_records = [] \<rparr>"
  have p: "parses section_G2" by (simp add: parses_def extract_G2)
  have c: "\<not> clashes (current_sessions ?st @ [(0, (9, 0), (10, 0))]) section_G2"
    by (simp add: clashes_def extract_G2)
  have f: "\<not> is_conflict (current_sessions ?st) [(0, (9, 0), (10, 0))]" by simp
  from general_loop_single_sibling_no_backup
    [OF stable_sort_desc_ok _ extract_G1 f siblings_G1 p c, of 0 1 "Some (7 / 2)" "[section_G2]"]
    stable_sort_desc_ok p c build_G12
  show ?thesis by simp
qed

section \<open>The store model and the functions on values\<close>

subsection \<open>Reading and writing the store\<close>

lemma zip_map_same: "zip xs (map f xs) = map (\<lambda>x. (x, f x)) xs"
  by (induction xs) simp_all

lemma sort_frame_bayes:
  assumes "sorts_descending sort_values"
  shows "fst (sort_frame sort_values rows (map (bayes_cell gm) rows)) = bayes_sorted sort_values gm rows"
proof (cases gm)
  case None
  have "mset (sort_values []) = mset []" using assms by (simp add: sorts_descending_def)
  then have e: "sort_values [] = []" by simp
  have c: "concat (map (\<lambda>(r, v). case v of None \<Rightarrow> [] | Some x \<Rightarrow> [(r, x)])
              (map (\<lambda>x. (x, None :: real option)) rows)) = ([] :: (offering \<times> real) list)"
    by (induction rows) simp_all
  have c': "concat (map (\<lambda>x. []) rows) = ([] :: (offering \<times> real) list)"
    by (induction rows) simp_all
  show ?thesis
    using None
    by (simp add: sort_frame_def bayes_cell_def bayes_sorted_def zip_map_same c' e comp_def Let_def)
next
  case (Some m)
  have c: "concat (map (\<lambda>(r, v). case v of None \<Rightarrow> [] | Some x \<Rightarrow> [(r, x)])
              (map (\<lambda>x. (x, Some (bayes m x))) rows)) = map (\<lambda>r. (r, bayes m r)) rows"
    by (induction rows) simp_all
  have f: "filter (\<lambda>(r, v). v = None) (map (\<lambda>x. (x, Some (bayes m x))) rows) = []"
    by (induction rows) simp_all
  have c2: "concat (map (\<lambda>x. [(x, bayes m x)]) rows) = map (\<lambda>r. (r, bayes m r)) rows"
    by (induction rows) simp_all
  show ?thesis
    using Some
    by (simp add: sort_frame_def bayes_cell_def bayes_sorted_def zip_map_same c2 f comp_def Let_def)
qed

lemma sessions_at_length: "sessions_at h c = Inr cur \<Longrightarrow> c < length h"
  by (simp add: sessions_at_def split: if_splits)

lemma frame_at_length: "frame_at h a = Inr x \<Longrightarrow> a < length h"
  by (simp add: frame_at_def split: if_splits)

lemma sessions_at_append: "c < length h \<Longrightarrow> sessions_at (h @ xs) c = sessions_at h c"
  by (simp add: sessions_at_def nth_append)

lemma sessions_at_update_other: "a \<noteq> c \<Longrightarrow> sessions_at (h[a := ob]) c = sessions_at h c"
  by (simp add: sessions_at_def)

lemma sessions_at_update_same: "c < length h \<Longrightarrow> sessions_at (h[c := Sessions s]) c = Inr s"
  by (simp add: sessions_at_def)

lemma only_writes_refl: "only_writes c h h"
  by (simp add: only_writes_def)

lemma only_writes_trans:
  "only_writes c h h1 \<Longrightarrow> only_writes c h1 h2 \<Longrightarrow> only_writes c h h2"
  by (auto simp: only_writes_def)

lemma only_writes_append: "only_writes c h (h @ xs)"
  by (simp add: only_writes_def nth_append)

lemma only_writes_update_fresh: "length h \<le> a \<Longrightarrow> only_writes c h (h'[a := ob]) = only_writes c h h'"
  by (auto simp: only_writes_def)

lemma only_writes_update_c: "only_writes c h h' \<Longrightarrow> only_writes c h (h'[c := ob])"
  by (auto simp: only_writes_def)

lemma select_offering_h_refines:
  assumes "sorts_descending sort_values"
    and "frame_at h g = Inr (rows, col)" and "sessions_at h c = Inr cur"
  shows "(\<forall>err. select_offering sort_values rows cur gm = Inl err
            \<longrightarrow> select_offering_h sort_values h g c gm = Inl err)
     \<and> (\<forall>p b cur'. select_offering sort_values rows cur gm = Inr (p, b, cur')
            \<longrightarrow> (\<exists>h'. select_offering_h sort_values h g c gm = Inr ((p, b), h')
                      \<and> only_writes c h h' \<and> sessions_at h' c = Inr cur'))"
proof (cases "rows = []")
  case True
  then show ?thesis
    using assms(2,3)
    by (auto simp: select_offering_def select_offering_h_def only_writes_refl)
next
  case False
  let ?vals = "map (bayes_cell gm) rows"
  obtain srows svals where sf: "sort_frame sort_values rows ?vals = (srows, svals)"
    by (cases "sort_frame sort_values rows ?vals")
  have srows: "srows = bayes_sorted sort_values gm rows"
    using sort_frame_bayes [OF assms(1), of rows gm] sf by simp
  let ?h3 = "((h @ [Frame rows col])[length h := Frame rows (Some ?vals)]) @ [Frame srows (Some svals)]"
  have c: "c < length h" using assms(3) by (rule sessions_at_length)
  have r3: "sessions_at ?h3 c = Inr cur"
    using c assms(3) by (simp add: sessions_at_append sessions_at_update_other)
  have w3: "only_writes c h ?h3"
    by (simp add: only_writes_def nth_append)
  have c3: "c < length ?h3" using c by simp
  have unfold: "select_offering_h sort_values h g c gm =
      (case pick_primary srows cur of
         Inl err \<Rightarrow> Inl err
       | Inr found \<Rightarrow>
           let primary = map_option fst found;
               h4 = (case found of None \<Rightarrow> ?h3 | Some (row, sess) \<Rightarrow> ?h3[c := Sessions (cur @ sess)])
           in (case sessions_at h4 c of
                 Inl err \<Rightarrow> Inl err
               | Inr cur' \<Rightarrow>
                   (case pick_backup primary srows cur' of
                      Inl err \<Rightarrow> Inl err
                    | Inr found_backup \<Rightarrow>
                        Inr ((primary, if found_backup = None then fallback_backup primary srows
                                       else found_backup), h4))))"
    using False assms(2) r3
    by (simp add: select_offering_h_def new_obj_def sf Let_def)
  show ?thesis
  proof (cases "pick_primary srows cur")
    case (Inl e)
    then show ?thesis
      using False by (simp add: unfold select_offering_def srows Let_def)
  next
    case (Inr found)
    let ?p = "map_option fst found"
    let ?cur' = "case found of None \<Rightarrow> cur | Some (row, sess) \<Rightarrow> cur @ sess"
    let ?h4 = "case found of None \<Rightarrow> ?h3 | Some (row, sess) \<Rightarrow> ?h3[c := Sessions (cur @ sess)]"
    have r4: "sessions_at ?h4 c = Inr ?cur'"
      using r3 c3 by (cases found) (auto simp: sessions_at_update_same simp del: length_append)
    have w4: "only_writes c h ?h4"
      using w3 by (cases found) (auto intro: only_writes_update_c)
    show ?thesis
    proof (cases "pick_backup ?p srows ?cur'")
      case (Inl e)
      then show ?thesis
        using False Inr r4 by (simp add: unfold select_offering_def srows [symmetric] Let_def)
    next
      case (Inr fb)
      then show ?thesis
        using False \<open>pick_primary srows cur = Inr found\<close> r4 w4
        by (simp add: unfold select_offering_def srows [symmetric] Let_def)
    qed
  qed
qed

subsection \<open>The loops and the builder\<close>

lemma frame_at_new: "frame_at (h @ [Frame rows col]) (length h) = Inr (rows, col)"
  by (simp add: frame_at_def)

lemma subject_loop_h_refines:
  assumes "sorts_descending sort_values"
  shows "sessions_at h cs = Inr (current_sessions st) \<Longrightarrow>
     (\<forall>err. subject_loop sort_values gm cat slice subjs st = Inl err
        \<longrightarrow> subject_loop_h sort_values gm cat slice col cs subjs (h, primaries st, rec_records st)
              = Inl err)
     \<and> (\<forall>st'. subject_loop sort_values gm cat slice subjs st = Inr st'
        \<longrightarrow> (\<exists>h'. subject_loop_h sort_values gm cat slice col cs subjs
                       (h, primaries st, rec_records st)
                     = Inr (h', primaries st', rec_records st')
                  \<and> only_writes cs h h' \<and> sessions_at h' cs = Inr (current_sessions st')))"
proof (induction subjs arbitrary: h st)
  case Nil
  then show ?case by (simp add: only_writes_refl)
next
  case (Cons subj subjs)
  let ?group = "filter (\<lambda>r. subject_name r = subj) slice"
  let ?gcol = "filter_col (\<lambda>r. subject_name r = subj) slice col"
  let ?h1 = "h @ [Frame ?group ?gcol]"
  have c: "cs < length h" using Cons.prems by (rule sessions_at_length)
  have f1: "frame_at ?h1 (length h) = Inr (?group, ?gcol)" by (rule frame_at_new)
  have s1: "sessions_at ?h1 cs = Inr (current_sessions st)"
    using c Cons.prems by (simp add: sessions_at_append)
  note sel = select_offering_h_refines [OF assms f1 s1, of gm]
  show ?case
  proof (cases "select_offering sort_values ?group (current_sessions st) gm")
    case (Inl e)
    with sel have "select_offering_h sort_values ?h1 (length h) cs gm = Inl e" by blast
    with Inl show ?thesis by (simp add: new_obj_def Let_def)
  next
    case (Inr res)
    obtain p b cur' where res: "res = (p, b, cur')" by (cases res)
    with Inr sel obtain h2 where
      h2: "select_offering_h sort_values ?h1 (length h) cs gm = Inr ((p, b), h2)"
      and w2: "only_writes cs ?h1 h2" and s2: "sessions_at h2 cs = Inr cur'" by blast
    let ?st2 = "\<lparr> current_sessions = cur',
                 primaries = primaries st @ (case p of None \<Rightarrow> [] | Some q \<Rightarrow> [q]),
                 rec_records = rec_records st @ [append_record cat subj p b] \<rparr>"
    have s2': "sessions_at h2 cs = Inr (current_sessions ?st2)" using s2 by simp
    note IH = Cons.IH [OF s2']
    have w: "only_writes cs h h2"
      using only_writes_append [of cs h] w2 by (rule only_writes_trans)
    have pure: "subject_loop sort_values gm cat slice (subj # subjs) st
        = subject_loop sort_values gm cat slice subjs ?st2"
      using Inr res by (simp add: Let_def)
    have heap: "subject_loop_h sort_values gm cat slice col cs (subj # subjs)
          (h, primaries st, rec_records st)
        = subject_loop_h sort_values gm cat slice col cs subjs
          (h2, primaries ?st2, rec_records ?st2)"
      using h2 by (simp add: new_obj_def)
    show ?thesis
      unfolding pure heap using IH w by (blast intro: only_writes_trans)
  qed
qed

lemma general_loop_h_refines:
  assumes "sorts_descending sort_values"
  shows "sessions_at h cs = Inr (current_sessions st) \<Longrightarrow>
     (\<forall>err. general_loop sort_values gm num general_df rows added st = Inl err
        \<longrightarrow> general_loop_h sort_values gm num general_df gvals cs rows added
              (h, primaries st, rec_records st) = Inl err)
     \<and> (\<forall>st'. general_loop sort_values gm num general_df rows added st = Inr st'
        \<longrightarrow> (\<exists>h'. general_loop_h sort_values gm num general_df gvals cs rows added
                       (h, primaries st, rec_records st)
                     = Inr (h', primaries st', rec_records st')
                  \<and> only_writes cs h h' \<and> sessions_at h' cs = Inr (current_sessions st')))"
proof (induction rows arbitrary: h st added)
  case Nil
  then show ?case by (simp add: only_writes_refl)
next
  case (Cons row rows)
  have c: "cs < length h" using Cons.prems by (rule sessions_at_length)
  show ?case
  proof (cases "added \<ge> num")
    case True
    then show ?thesis using Cons.prems by (simp add: only_writes_refl)
  next
    case False
    show ?thesis
    proof (cases "extract_sessions (time_field row)")
      case (Inl e)
      with False show ?thesis by simp
    next
      case (Inr sess)
      show ?thesis
      proof (cases "is_conflict (current_sessions st) sess")
        case True
        with False Inr Cons.prems Cons.IH [OF Cons.prems, of added] show ?thesis by simp
      next
        case free: False
        let ?cur' = "current_sessions st @ sess"
        let ?sib = "\<lambda>r. subject_name r = subject_name row \<and> subject_code r \<noteq> subject_code row"
        let ?grp = "filter ?sib general_df"
        let ?gcol = "filter_col ?sib general_df (Some gvals)"
        let ?h1 = "h[cs := Sessions ?cur']"
        let ?h2 = "?h1 @ [Frame ?grp ?gcol]"
        let ?h3 = "?h2 @ [Sessions ?cur']"
        have fg: "frame_at ?h3 (length h) = Inr (?grp, ?gcol)"
          by (simp add: frame_at_def nth_append)
        have sc: "sessions_at ?h3 (Suc (length h)) = Inr ?cur'"
          by (simp add: sessions_at_def nth_append)
        have s3: "sessions_at ?h3 cs = Inr ?cur'"
          using c by (simp add: sessions_at_def nth_append)
        have w3: "only_writes cs h ?h3"
          by (simp add: only_writes_def nth_append)
        note sel = select_offering_h_refines [OF assms fg sc, of gm]
        show ?thesis
        proof (cases "select_offering sort_values ?grp ?cur' gm")
          case (Inl e)
          with sel have "select_offering_h sort_values ?h3 (length h) (Suc (length h)) gm = Inl e"
            by blast
          with Inl False Inr free Cons.prems show ?thesis
            by (simp add: new_obj_def Let_def)
        next
          case sel_ok: (Inr res)
          obtain p b cp where res: "res = (p, b, cp)" by (cases res)
          with sel_ok sel obtain h4 where
            h4: "select_offering_h sort_values ?h3 (length h) (Suc (length h)) gm = Inr ((p, b), h4)"
            and w4: "only_writes (Suc (length h)) ?h3 h4" by blast
          let ?st2 = "\<lparr> current_sessions = ?cur',
                       primaries = primaries st @ [row],
                       rec_records = rec_records st
                         @ [append_record cat_general (subject_name row) (Some row) b] \<rparr>"
          have len: "length ?h3 = Suc (Suc (length h))" by simp
          have keep: "h4 ! cs = ?h3 ! cs"
            using w4 c unfolding only_writes_def len by auto
          have l4: "length ?h3 \<le> length h4" using w4 by (simp add: only_writes_def)
          have s4: "sessions_at h4 cs = Inr (current_sessions ?st2)"
            using s3 keep c l4 by (simp add: sessions_at_def)
          have w: "only_writes cs h h4"
          proof -
            have "\<forall>a<length h. a \<noteq> cs \<longrightarrow> h4 ! a = h ! a"
            proof (intro allI impI)
              fix a assume a: "a < length h" "a \<noteq> cs"
              then have "h4 ! a = ?h3 ! a"
                using w4 unfolding only_writes_def len by auto
              also have "\<dots> = h ! a" using a by (simp add: nth_append)
              finally show "h4 ! a = h ! a" .
            qed
            moreover have "length h \<le> length h4" using l4 by simp
            ultimately show ?thesis by (simp add: only_writes_def)
          qed
          note IH = Cons.IH [OF s4, of "added + 1"]
          have pure: "general_loop sort_values gm num general_df (row # rows) added st
              = general_loop sort_values gm num general_df rows (added + 1) ?st2"
            using False Inr free sel_ok res by (simp add: Let_def)
          have heap: "general_loop_h sort_values gm num general_df gvals cs (row # rows) added
                (h, primaries st, rec_records st)
              = general_loop_h sort_values gm num general_df gvals cs rows (added + 1)
                (h4, primaries ?st2, rec_records ?st2)"
            using False Inr free Cons.prems h4 by (simp add: new_obj_def Let_def)
          show ?thesis
            unfolding pure heap using IH w by (blast intro: only_writes_trans)
        qed
      qed
    qed
  qed
qed

lemma only_writes_take:
  assumes "only_writes (length h) (h @ [ob]) h'"
  shows "take (length h) h' = h"
proof (rule nth_equalityI)
  from assms have l: "length (h @ [ob]) \<le> length h'" by (simp add: only_writes_def)
  then show "length (take (length h) h') = length h" by simp
  fix a assume "a < length (take (length h) h')"
  then have a: "a < length h" by simp
  then have "h' ! a = (h @ [ob]) ! a"
    using assms by (simp add: only_writes_def)
  with a show "take (length h) h' ! a = h ! a" by (simp add: nth_append)
qed

lemma build_schedule_h_refines:
  assumes "sorts_descending sort_values"
    and "frame_at h df = Inr (rows, col)" and "names_at h selected_majors = Inr names"
  shows "(\<forall>err. build_schedule sort_values rows names num_general = Inl err
            \<longrightarrow> build_schedule_h sort_values h df selected_majors num_general = Inl err)
     \<and> (\<forall>tables. build_schedule sort_values rows names num_general = Inr tables
            \<longrightarrow> (\<exists>h'. build_schedule_h sort_values h df selected_majors num_general
                          = Inr (tables, h')
                      \<and> take (length h) h' = h))"
proof -
  let ?gm = "global_mean_of rows"
  let ?cs = "length h"
  let ?h0 = "h @ [Sessions []]"
  let ?st0 = "\<lparr> current_sessions = [], primaries = [], rec_records = [] \<rparr>"
  let ?is_m = "\<lambda>r. category r = cat_mandatory"
  let ?is_e = "\<lambda>r. category r = cat_elective"
  let ?is_g = "\<lambda>r. category r = cat_general"
  let ?mand = "filter ?is_m rows"
  let ?elec = "filter ?is_e rows"
  let ?gen = "filter ?is_g rows"
  let ?gvals = "map (bayes_cell ?gm) ?gen"
  obtain srows svals where sf: "sort_frame sort_values ?gen ?gvals = (srows, svals)"
    by (cases "sort_frame sort_values ?gen ?gvals")
  have srows: "srows = bayes_sorted sort_values ?gm ?gen"
    using sort_frame_bayes [OF assms(1), of ?gen ?gm] sf by simp
  have s0: "sessions_at ?h0 ?cs = Inr (current_sessions ?st0)"
    by (simp add: sessions_at_def)
  note m = subject_loop_h_refines [OF assms(1) s0, of ?gm cat_mandatory ?mand
      "unique (map subject_name ?mand)" "filter_col ?is_m rows col"]
  note start = build_schedule_h_def new_obj_def assms(2,3) sf
  show ?thesis
  proof (cases "subject_loop sort_values ?gm cat_mandatory ?mand (unique (map subject_name ?mand)) ?st0")
    case (Inl e)
    with m have "subject_loop_h sort_values ?gm cat_mandatory ?mand (filter_col ?is_m rows col) ?cs
              (unique (map subject_name ?mand)) (?h0, [], []) = Inl e" by simp
    with Inl show ?thesis by (simp add: start build_schedule_def Let_def)
  next
    case (Inr st1)
    with m obtain h1 where
      l1: "subject_loop_h sort_values ?gm cat_mandatory ?mand (filter_col ?is_m rows col) ?cs
              (unique (map subject_name ?mand)) (?h0, [], []) = Inr (h1, primaries st1, rec_records st1)"
      and w1: "only_writes ?cs ?h0 h1" and s1: "sessions_at h1 ?cs = Inr (current_sessions st1)"
      by auto
    let ?h2 = "h1 @ [Frame ?elec (filter_col ?is_e rows col)]"
    have c1: "?cs < length h1" using s1 by (rule sessions_at_length)
    have s2: "sessions_at ?h2 ?cs = Inr (current_sessions st1)"
      using c1 s1 by (simp add: sessions_at_append)
    have w2: "only_writes ?cs ?h0 ?h2"
      using w1 only_writes_append by (rule only_writes_trans)
    note e = subject_loop_h_refines [OF assms(1) s2, of ?gm cat_elective ?elec names
        "filter_col ?is_e rows col"]
    show ?thesis
    proof (cases "subject_loop sort_values ?gm cat_elective ?elec names st1")
      case (Inl e')
      with e have "subject_loop_h sort_values ?gm cat_elective ?elec (filter_col ?is_e rows col) ?cs
                   names (?h2, primaries st1, rec_records st1) = Inl e'" by simp
      with Inl Inr l1 show ?thesis by (simp add: start build_schedule_def Let_def)
    next
      case st2: (Inr st2)
      with e obtain h3 where
        l3: "subject_loop_h sort_values ?gm cat_elective ?elec (filter_col ?is_e rows col) ?cs
                   names (?h2, primaries st1, rec_records st1) = Inr (h3, primaries st2, rec_records st2)"
        and w3: "only_writes ?cs ?h2 h3" and s3: "sessions_at h3 ?cs = Inr (current_sessions st2)"
        by auto
      let ?h6 = "((h3 @ [Frame ?gen (filter_col ?is_g rows col)])
                    [length h3 := Frame ?gen (Some ?gvals)]) @ [Frame srows (Some svals)]"
      have c3: "?cs < length h3" using s3 by (rule sessions_at_length)
      have s6: "sessions_at ?h6 ?cs = Inr (current_sessions st2)"
        using c3 s3 by (simp add: sessions_at_def nth_append)
      have w6: "only_writes ?cs h3 ?h6"
        by (simp add: only_writes_def nth_append)
      have w06: "only_writes ?cs ?h0 ?h6"
        using only_writes_trans [OF only_writes_trans [OF w2 w3] w6] .
      note g = general_loop_h_refines [OF assms(1) s6, of ?gm num_general srows srows 0 svals]
      show ?thesis
      proof (cases "general_loop sort_values ?gm num_general srows srows 0 st2")
        case (Inl e')
        with g have "general_loop_h sort_values ?gm num_general srows svals ?cs srows 0
                        (?h6, primaries st2, rec_records st2) = Inl e'" by simp
        with Inl Inr st2 l1 l3 show ?thesis
          by (simp add: start build_schedule_def Let_def srows [symmetric])
      next
        case st3: (Inr st3)
        with g obtain h7 where
          l7: "general_loop_h sort_values ?gm num_general srows svals ?cs srows 0
                        (?h6, primaries st2, rec_records st2) = Inr (h7, primaries st3, rec_records st3)"
          and w7: "only_writes ?cs ?h6 h7" by auto
        have "only_writes ?cs ?h0 h7" using w06 w7 by (rule only_writes_trans)
        then have t: "take (length h) h7 = h" by (rule only_writes_take)
        from Inr st2 st3 l1 l3 l7 t show ?thesis
          by (simp add: start build_schedule_def Let_def srows [symmetric])
      qed
    qed
  qed
qed

subsection \<open>Two runs on the same input\<close>

text \<open>
  Claim C9. Let the store hold a catalog frame and a list of selected names, and let
  the sort meet its contract. When \<^verbatim>\<open>build_schedule\<close> returns its tables, they are the
  tables the function on values computes from the rows and the names; every object the
  store held before the call is unchanged afterwards, the catalog and the list of names
  among them (the call writes only to objects it made itself); and a second call with
  the same arguments, run on the store the first call left, returns the same tables.
  The call returns whenever every time field of the catalog parses.
\<close>

theorem build_schedule_h_second_run:
  assumes "sorts_descending sort_values"
    and "frame_at h df = Inr (rows, col)" and "names_at h selected_majors = Inr names"
  shows "((\<forall>r\<in>set rows. parses r) \<longrightarrow>
            (\<exists>tables h'. build_schedule_h sort_values h df selected_majors num_general
                            = Inr (tables, h')))
     \<and> (build_schedule_h sort_values h df selected_majors num_general = Inr (tables, h') \<longrightarrow>
            build_schedule sort_values rows names num_general = Inr tables
          \<and> take (length h) h' = h
          \<and> frame_at h' df = Inr (rows, col)
          \<and> names_at h' selected_majors = Inr names
          \<and> (\<exists>h''. build_schedule_h sort_values h' df selected_majors num_general
                       = Inr (tables, h'')))"
proof -
  note ref = build_schedule_h_refines [OF assms, of num_general]
  have total: "(\<forall>r\<in>set rows. parses r) \<longrightarrow>
            (\<exists>tables h'. build_schedule_h sort_values h df selected_majors num_general
                            = Inr (tables, h'))"
  proof
    assume "\<forall>r\<in>set rows. parses r"
    with assms(1) obtain t where "build_schedule sort_values rows names num_general = Inr t"
      using build_schedule_total by blast
    with ref show "\<exists>tables h'. build_schedule_h sort_values h df selected_majors num_general
                            = Inr (tables, h')" by blast
  qed
  have again: "build_schedule sort_values rows names num_general = Inr tables
          \<and> take (length h) h' = h
          \<and> frame_at h' df = Inr (rows, col)
          \<and> names_at h' selected_majors = Inr names
          \<and> (\<exists>h''. build_schedule_h sort_values h' df selected_majors num_general
                       = Inr (tables, h''))"
    if run: "build_schedule_h sort_values h df selected_majors num_general = Inr (tables, h')"
  proof -
    have pure: "build_schedule sort_values rows names num_general = Inr tables"
    proof (cases "build_schedule sort_values rows names num_general")
      case (Inl e)
      with ref run show ?thesis by simp
    next
      case (Inr t)
      with ref run show ?thesis by auto
    qed
    with ref run have keep: "take (length h) h' = h" by auto
    have d: "df < length h" using assms(2) by (rule frame_at_length)
    have s: "selected_majors < length h"
      using assms(3) by (simp add: names_at_def split: if_splits)
    have "length (take (length h) h') = length h" using keep by simp
    then have len: "length h \<le> length h'" by simp
    have nth: "h' ! a = h ! a" if "a < length h" for a
      using keep nth_take [OF that, of h'] by simp
    have f': "frame_at h' df = Inr (rows, col)"
      using assms(2) d len nth [OF d] by (simp add: frame_at_def)
    have n': "names_at h' selected_majors = Inr names"
      using assms(3) s len nth [OF s] by (simp add: names_at_def)
    from build_schedule_h_refines [OF assms(1) f' n', of num_general] pure
    have "\<exists>h''. build_schedule_h sort_values h' df selected_majors num_general = Inr (tables, h'')"
      by blast
    with pure keep f' n' show ?thesis by blast
  qed
  from total again show ?thesis by blast
qed


theorem build_schedule_h_second_run_witness:
  "\<exists>h' h''.
      build_schedule_h stable_sort_desc example_store 0 1 1
        = Inr (([section_G1],
                [append_record cat_general (subject_name section_G1) (Some section_G1) None]), h')
    \<and> take 2 h' = example_store
    \<and> build_schedule_h stable_sort_desc h' 0 1 1
        = Inr (([section_G1],
                [append_record cat_general (subject_name section_G1) (Some section_G1) None]), h'')"
proof -
  let ?T = "([section_G1],
             [append_record cat_general (subject_name section_G1) (Some section_G1) None])"
  have f: "frame_at example_store 0 = Inr ([section_G1, section_G2], None)"
    by (simp add: example_store_def frame_at_def)
  have n: "names_at example_store 1 = Inr []"
    by (simp add: example_store_def names_at_def)
  have p: "\<forall>r\<in>set [section_G1, section_G2]. parses r"
    by (simp add: parses_def extract_G1 extract_G2)
  note second = build_schedule_h_second_run [OF stable_sort_desc_ok f n, of 1]
  from second p obtain tables h' where
    run: "build_schedule_h stable_sort_desc example_store 0 1 1 = Inr (tables, h')" by blast
  with second [of tables h'] have
    pure: "build_schedule stable_sort_desc [section_G1, section_G2] [] 1 = Inr tables"
    and keep: "take (length example_store) h' = example_store"
    and again: "\<exists>h''. build_schedule_h stable_sort_desc h' 0 1 1 = Inr (tables, h'')"
    by blast+
  from pure build_G12 have t: "tables = ?T" by simp
  have l: "length example_store = 2" by (simp add: example_store_def)
  from run keep again show ?thesis unfolding t l by blast
qed

end
